theory Spec2Isabelle
  imports Complex_Main "HOL-Library.Word"
begin

section \<open>The DeFi language server: data model\<close>

text \<open>
  The server in \<^verbatim>\<open>server/src/server.ts\<close> scans a text document for Ethereum
  addresses and private keys and answers the editor with diagnostics, code lenses and
  quick fixes. JavaScript strings are modelled as \<^typ>\<open>string\<close>, one element per code
  unit; the two regular expressions of the source only distinguish ASCII classes.
  Exceptions and rejected promises are values of the sum type \<open>exn + 'a\<close>.
\<close>

datatype exn = TypeError string | LibraryError string

record Position =
  line :: nat
  character :: nat

record Range =
  start :: Position
  endPos :: Position

text \<open>
  A \<^verbatim>\<open>TextDocument\<close> of the language-server library: its text and its own
  offset-to-position table, which the server uses as given.
\<close>

record TextDocument =
  uri :: string
  getText :: string
  positionAt :: "nat \<Rightarrow> Position"

record StringLocation =
  loc_range :: Range
  content :: string

subsection \<open>String helpers of JavaScript\<close>

definition startsWith :: "string \<Rightarrow> string \<Rightarrow> bool" where
  "startsWith s p = (take (length p) s = p)"

definition substring :: "string \<Rightarrow> nat \<Rightarrow> string" where
  "substring s n = drop n s"

section \<open>The two regular expressions\<close>

text \<open>
  \<^verbatim>\<open>/0x[0-9a-fA-F]{40}\b/g\<close> and \<^verbatim>\<open>/[0-9a-fA-F]{64}\b/g\<close>. Both have a fixed
  length and no alternative, so a match at a position is decided by the characters
  there. \<^verbatim>\<open>\b\<close> holds at a position when exactly one of the characters before and at
  it is a word character \<^verbatim>\<open>[A-Za-z0-9_]\<close>; outside the text counts as a non-word
  character.
\<close>

definition isHexDigit :: "char \<Rightarrow> bool" where
  "isHexDigit c = (c \<in> set ''0123456789abcdefABCDEF'')"

definition isWordChar :: "char \<Rightarrow> bool" where
  "isWordChar c =
     (c \<in> set ''abcdefghijklmnopqrstuvwxyzABCDEFGHIJKLMNOPQRSTUVWXYZ0123456789_'')"

definition wordCharAt :: "string \<Rightarrow> nat \<Rightarrow> bool" where
  "wordCharAt text p = (p < length text \<and> isWordChar (text ! p))"

definition wordBoundary :: "string \<Rightarrow> nat \<Rightarrow> bool" where
  "wordBoundary text p = ((0 < p \<and> wordCharAt text (p - 1)) \<noteq> wordCharAt text p)"

datatype pattern = AddressPattern | PrivateKeyPattern

fun matchLength :: "pattern \<Rightarrow> nat" where
  "matchLength AddressPattern = 42"
| "matchLength PrivateKeyPattern = 64"

fun matchAt :: "pattern \<Rightarrow> string \<Rightarrow> nat \<Rightarrow> bool" where
  "matchAt AddressPattern text i =
     (i + 42 \<le> length text \<and> take 2 (drop i text) = ''0x'' \<and>
      list_all isHexDigit (take 40 (drop (i + 2) text)) \<and> wordBoundary text (i + 42))"
| "matchAt PrivateKeyPattern text i =
     (i + 64 \<le> length text \<and>
      list_all isHexDigit (take 64 (drop i text)) \<and> wordBoundary text (i + 64))"

text \<open>
  \<^verbatim>\<open>pattern.exec(text)\<close> of a global regular expression: the leftmost match that
  starts at or after \<^verbatim>\<open>lastIndex\<close>, as its index and its text \<^verbatim>\<open>m[0]\<close>; the new
  \<^verbatim>\<open>lastIndex\<close> is the end of the match. \<open>None\<close> is JavaScript's \<^verbatim>\<open>null\<close>.
\<close>

definition exec :: "pattern \<Rightarrow> string \<Rightarrow> nat \<Rightarrow> (nat \<times> string) option" where
  "exec pat text lastIndex =
     map_option (\<lambda>i. (i, take (matchLength pat) (drop i text)))
       (find (matchAt pat text) [lastIndex..<Suc (length text)])"

section \<open>The span scanners\<close>

definition normalizeHex :: "string \<Rightarrow> string" where
  "normalizeHex hex = (if \<not> startsWith hex ''0x'' then ''0x'' @ hex else hex)"

definition mkLocation :: "(string \<Rightarrow> string) \<Rightarrow> TextDocument \<Rightarrow> nat \<times> string \<Rightarrow> StringLocation" where
  "mkLocation mk textDocument m =
     \<lparr> loc_range = \<lparr> start = positionAt textDocument (fst m),
                     endPos = positionAt textDocument (fst m + length (snd m)) \<rparr>,
       content = mk (snd m) \<rparr>"

lemma exec_Some_bounds:
  assumes "exec pat text lastIndex = Some (index, m0)"
  shows "lastIndex \<le> index" and "index + matchLength pat \<le> length text"
    and "length m0 = matchLength pat" and "matchAt pat text index"
    and "m0 = take (matchLength pat) (drop index text)"
proof -
  from assms obtain i where f: "find (matchAt pat text) [lastIndex..<Suc (length text)] = Some i"
    and im: "index = i" "m0 = take (matchLength pat) (drop i text)"
    by (auto simp: exec_def)
  from f obtain k where k: "k < length [lastIndex..<Suc (length text)]"
    "matchAt pat text ([lastIndex..<Suc (length text)] ! k)"
    "i = [lastIndex..<Suc (length text)] ! k"
    by (auto simp: find_Some_iff)
  then have i: "i = lastIndex + k" by (simp del: upt_Suc)
  show "matchAt pat text index" using k im by simp
  then show b: "index + matchLength pat \<le> length text" by (cases pat) simp_all
  show "lastIndex \<le> index" using i im by simp
  show "m0 = take (matchLength pat) (drop index text)" using im by simp
  then show "length m0 = matchLength pat" using b by simp
qed

text \<open>
  The loop \<^verbatim>\<open>while ((m = pattern.exec(text)) && problems < 100)\<close> shared by
  \<^verbatim>\<open>findPossibleEthereumAddresses\<close> and \<^verbatim>\<open>findPossiblePrivateKeys\<close>, which differ in
  the pattern and in how the content is made from \<^verbatim>\<open>m[0]\<close>. The source never
  changes \<^verbatim>\<open>problems\<close> in the loop body, and the model does not either.
\<close>

function findLoop ::
  "pattern \<Rightarrow> (string \<Rightarrow> string) \<Rightarrow> TextDocument \<Rightarrow> nat \<Rightarrow> nat \<Rightarrow> StringLocation list
     \<Rightarrow> StringLocation list" where
  "findLoop pat mk textDocument lastIndex problems locations =
     (case exec pat (getText textDocument) lastIndex of
        None \<Rightarrow> locations
      | Some m \<Rightarrow>
          if problems < 100
          then findLoop pat mk textDocument (fst m + length (snd m)) problems
                 (locations @ [mkLocation mk textDocument m])
          else locations)"
  by pat_completeness auto
termination
proof (relation "measure (\<lambda>(pat, mk, d, lastIndex, problems, locations).
                   Suc (length (getText d)) - lastIndex)", goal_cases)
  case 1
  show ?case by simp
next
  case (2 pat mk textDocument lastIndex problems locations m)
  obtain index m0 where m: "m = (index, m0)" by (cases m)
  from 2 m have e: "exec pat (getText textDocument) lastIndex = Some (index, m0)" by simp
  have "0 < matchLength pat" by (cases pat) simp_all
  with exec_Some_bounds(1,2,3)[OF e] m show ?case by simp
qed

definition findPossibleEthereumAddresses :: "TextDocument \<Rightarrow> StringLocation list" where
  "findPossibleEthereumAddresses textDocument =
     findLoop AddressPattern (\<lambda>m0. m0) textDocument 0 0 []"

definition findPossiblePrivateKeys :: "TextDocument \<Rightarrow> StringLocation list" where
  "findPossiblePrivateKeys textDocument =
     findLoop PrivateKeyPattern normalizeHex textDocument 0 0 []"

section \<open>External libraries and the naming service\<close>

text \<open>
  \<^verbatim>\<open>web3\<close>, \<^verbatim>\<open>ethereumjs-util\<close>, \<^verbatim>\<open>ethereumjs-wallet\<close> and \<^verbatim>\<open>ethereum-ens\<close>
  are libraries the server calls; they are parameters of the model. A library function
  that can throw returns \<open>exn + 'a\<close>. A call on the naming service either throws
  before a promise exists, or its promise is rejected, or it resolves to a string.
\<close>

datatype remote = Throws exn | Rejects exn | Resolves string

record ENS =
  reverse_name :: "string \<Rightarrow> remote"
  resolver_addr :: "string \<Rightarrow> remote"

record libraries =
  isAddress :: "string \<Rightarrow> bool"
  toChecksumAddress :: "string \<Rightarrow> exn + string"
  privateKeyToAccount :: "string \<Rightarrow> exn + string"
  toBuffer :: "string \<Rightarrow> exn + 8 word list"
  fromPrivateKey :: "8 word list \<Rightarrow> exn + unit"
  newENS :: "string \<Rightarrow> ENS"

section \<open>Settings, diagnostics and the server's global variables\<close>

record DefiSettings =
  maxNumberOfProblems :: real
  infuraProjectId :: string
  infuraProjectSecret :: string
  amberdataApiKey :: string

datatype DiagnosticSeverity = Error | Warning | Information | Hint

datatype DiagnosticCode = CodeString string | CodeNumber int | CodeUndefined

record RelatedInformation =
  location_uri :: string
  location_range :: Range
  related_message :: string

record Diagnostic =
  severity :: DiagnosticSeverity
  diag_range :: Range
  message :: string
  source :: string
  code :: DiagnosticCode
  relatedInformation :: "RelatedInformation list"

text \<open>
  The module-level variables a validation pass reads and writes: \<^verbatim>\<open>ens\<close> and
  \<^verbatim>\<open>web3provider\<close> are declared without a value (\<open>None\<close> is \<^verbatim>\<open>undefined\<close>),
  and \<open>sent\<close> collects the calls of \<^verbatim>\<open>connection.sendDiagnostics\<close>. Console output
  is not modelled.
\<close>

record server =
  ens :: "ENS option"
  web3provider :: "string option"
  amberdataApiKeySetting :: "string option"
  hasDiagnosticRelatedInformationCapability :: bool
  sent :: "(string \<times> Diagnostic list) list"

definition NAME :: string where
  "NAME = ''DeFi Language Support''"

definition DIAGNOSTIC_TYPE_NOT_VALID_ADDRESS :: string where
  "DIAGNOSTIC_TYPE_NOT_VALID_ADDRESS = ''NotValidAddress''"

definition DIAGNOSTIC_TYPE_NOT_CHECKSUM_ADDRESS :: string where
  "DIAGNOSTIC_TYPE_NOT_CHECKSUM_ADDRESS = ''NotChecksumAddress''"

definition DIAGNOSTIC_TYPE_CONVERT_ENS_NAME :: string where
  "DIAGNOSTIC_TYPE_CONVERT_ENS_NAME = ''ConvertENSName''"

definition CODE_LENS_TYPE_ETH_ADDRESS :: string where
  "CODE_LENS_TYPE_ETH_ADDRESS = ''EthAddress''"

definition CODE_LENS_TYPE_ETH_PRIVATE_KEY :: string where
  "CODE_LENS_TYPE_ETH_PRIVATE_KEY = ''EthPrivateKey''"

definition NETWORKS :: "string list" where
  "NETWORKS = [''mainnet'', ''ropsten'', ''kovan'', ''rinkeby'', ''goerli'']"

section \<open>Name resolution\<close>

definition undefinedEns :: exn where
  "undefinedEns = TypeError ''Cannot read properties of undefined''"

definition zeroAddress :: string where
  "zeroAddress = ''0x0000000000000000000000000000000000000000''"

text \<open>
  \<^verbatim>\<open>ENSLookup\<close>: \<^verbatim>\<open>result\<close> starts empty; the \<^verbatim>\<open>then\<close> callback stores a resolved
  address other than the zero address, the \<^verbatim>\<open>catch\<close> callback absorbs a rejection.
  Reading \<^verbatim>\<open>ens.resolver\<close> while \<^verbatim>\<open>ens\<close> is undefined throws inside the async
  function, whose promise is then rejected.
\<close>

definition ENSLookup :: "server \<Rightarrow> string \<Rightarrow> exn + string" where
  "ENSLookup sv name =
     (case ens sv of
        None \<Rightarrow> Inl undefinedEns
      | Some e \<Rightarrow>
          (case resolver_addr e name of
             Throws x \<Rightarrow> Inl x
           | Rejects x \<Rightarrow> Inr []
           | Resolves addr \<Rightarrow> Inr (if addr \<noteq> zeroAddress then addr else [])))"

text \<open>
  \<^verbatim>\<open>reverseENSLookup\<close>: the \<^verbatim>\<open>then\<close> callback looks the reported name up
  forwards and compares the two checksum forms; whatever it throws (the forward lookup,
  either \<^verbatim>\<open>toChecksumAddress\<close>) rejects the chained promise, which the \<^verbatim>\<open>catch\<close>
  callback absorbs, leaving \<^verbatim>\<open>result\<close> empty.
\<close>

definition reverseENSLookup :: "libraries \<Rightarrow> server \<Rightarrow> string \<Rightarrow> exn + string" where
  "reverseENSLookup L sv address =
     (case ens sv of
        None \<Rightarrow> Inl undefinedEns
      | Some e \<Rightarrow>
          (case reverse_name e address of
             Throws x \<Rightarrow> Inl x
           | Rejects x \<Rightarrow> Inr []
           | Resolves name \<Rightarrow>
               (case ENSLookup sv name of
                  Inl x \<Rightarrow> Inr []
                | Inr addr \<Rightarrow>
                    (case toChecksumAddress L address of
                       Inl x \<Rightarrow> Inr []
                     | Inr a \<Rightarrow>
                         (case toChecksumAddress L addr of
                            Inl x \<Rightarrow> Inr []
                          | Inr b \<Rightarrow> Inr (if a = b then name else []))))))"

section \<open>The validation pass\<close>

definition isValidEthereumAddress :: "libraries \<Rightarrow> string \<Rightarrow> bool" where
  "isValidEthereumAddress L address = isAddress L address"

definition addDiagnostic ::
  "server \<Rightarrow> TextDocument \<Rightarrow> StringLocation \<Rightarrow> string \<Rightarrow> string \<Rightarrow> DiagnosticSeverity
     \<Rightarrow> string \<Rightarrow> Diagnostic list \<Rightarrow> Diagnostic list" where
  "addDiagnostic sv textDocument element msg details sev c diagnostics =
     diagnostics @
     [\<lparr> severity = sev, diag_range = loc_range element, message = msg, source = NAME,
        code = CodeString c,
        relatedInformation =
          (if hasDiagnosticRelatedInformationCapability sv
           then [\<lparr> location_uri = uri textDocument, location_range = loc_range element,
                    related_message = details \<rparr>]
           else []) \<rparr>]"

text \<open>
  The \<^verbatim>\<open>for\<close> loop of \<^verbatim>\<open>validateTextDocument\<close> over the scanned candidates, with
  its variables \<^verbatim>\<open>problems\<close> and \<^verbatim>\<open>diagnostics\<close>. An exception of
  \<^verbatim>\<open>toChecksumAddress\<close> or of the awaited \<^verbatim>\<open>reverseENSLookup\<close> leaves the loop
  and the function.
\<close>

fun validateLoop ::
  "libraries \<Rightarrow> server \<Rightarrow> DefiSettings \<Rightarrow> TextDocument \<Rightarrow> StringLocation list \<Rightarrow> nat
     \<Rightarrow> Diagnostic list \<Rightarrow> exn + Diagnostic list" where
  "validateLoop L sv settings textDocument [] problems diagnostics = Inr diagnostics"
| "validateLoop L sv settings textDocument (element # rest) problems diagnostics =
     (if real problems < maxNumberOfProblems settings then
        (if \<not> isValidEthereumAddress L (content element) then
           validateLoop L sv settings textDocument rest (problems + 1)
             (addDiagnostic sv textDocument element
                (content element @ '' is not a valid Ethereum address'')
                ''The string appears to be an Ethereum address but fails checksum.''
                Error DIAGNOSTIC_TYPE_NOT_VALID_ADDRESS diagnostics)
         else
           (case toChecksumAddress L (content element) of
              Inl x \<Rightarrow> Inl x
            | Inr checksumAddress \<Rightarrow>
                (let diagnostics1 =
                   (if content element \<noteq> checksumAddress
                    then addDiagnostic sv textDocument element
                           (content element @ '' is not a checksum address'')
                           ''Use a checksum address as a best practice to ensure the address is valid.''
                           Warning (DIAGNOSTIC_TYPE_NOT_CHECKSUM_ADDRESS @ checksumAddress)
                           diagnostics
                    else diagnostics)
                 in (case reverseENSLookup L sv (content element) of
                       Inl x \<Rightarrow> Inl x
                     | Inr ensName \<Rightarrow>
                         validateLoop L sv settings textDocument rest (problems + 1)
                           (if ensName \<noteq> []
                            then addDiagnostic sv textDocument element
                                   (content element @ '' can be converted to its ENS name ''
                                      @ [CHR 0x22] @ ensName @ [CHR 0x22])
                                   ''Convert the Ethereum address to its ENS name for better readability.''
                                   Hint (DIAGNOSTIC_TYPE_CONVERT_ENS_NAME @ ensName)
                                   diagnostics1
                            else diagnostics1)))))
      else validateLoop L sv settings textDocument rest problems diagnostics)"

text \<open>
  The set-up at the head of \<^verbatim>\<open>validateTextDocument\<close>: the naming client is created
  only when the project id is not empty (the source tests the id twice and never the
  secret), the market key is stored only when it is not empty.
\<close>

definition setupClients :: "libraries \<Rightarrow> DefiSettings \<Rightarrow> server \<Rightarrow> server" where
  "setupClients L settings sv =
     (let sv1 =
        (if infuraProjectId settings = [] \<or> infuraProjectId settings = [] then sv
         else
           (let provider = ''https://:'' @ infuraProjectSecret settings
                             @ ''@mainnet.infura.io/v3/'' @ infuraProjectId settings
            in sv\<lparr> web3provider := Some provider, ens := Some (newENS L provider) \<rparr>))
      in if amberdataApiKey settings = [] then sv1
         else sv1\<lparr> amberdataApiKeySetting := Some (amberdataApiKey settings) \<rparr>)"

text \<open>
  \<^verbatim>\<open>validateTextDocument\<close>, from the settings it has awaited: \<open>Inr\<close> the server
  after \<^verbatim>\<open>connection.sendDiagnostics\<close>, \<open>Inl\<close> the exception that rejected the
  pass before anything was sent.
\<close>

definition validateTextDocument ::
  "libraries \<Rightarrow> DefiSettings \<Rightarrow> server \<Rightarrow> TextDocument \<Rightarrow> exn + server" where
  "validateTextDocument L settings sv textDocument =
     (let sv' = setupClients L settings sv;
          possibleEthereumAddresses = findPossibleEthereumAddresses textDocument
      in case validateLoop L sv' settings textDocument possibleEthereumAddresses 0 [] of
           Inl x \<Rightarrow> Inl x
         | Inr diagnostics \<Rightarrow>
             Inr (sv'\<lparr> sent := sent sv' @ [(uri textDocument, diagnostics)] \<rparr>))"

section \<open>Private keys\<close>

text \<open>
  \<^verbatim>\<open>isPrivateKey\<close>: the \<^verbatim>\<open>try\<close> block converts the string to a buffer and builds
  a wallet from it, the \<^verbatim>\<open>catch\<close> block turns whatever either threw into
  \<^verbatim>\<open>false\<close>. The result type keeps the possibility of an exception, so that its
  absence is a statement about the function.
\<close>

definition isPrivateKey :: "libraries \<Rightarrow> string \<Rightarrow> exn + bool" where
  "isPrivateKey L possiblePrivateKey =
     (case (case toBuffer L possiblePrivateKey of
              Inl e \<Rightarrow> Inl e
            | Inr privateKeyBuffer \<Rightarrow> fromPrivateKey L privateKeyBuffer) of
        Inl e \<Rightarrow> Inr False
      | Inr w \<Rightarrow> Inr True)"

definition toPublicKey :: "libraries \<Rightarrow> string \<Rightarrow> exn + string" where
  "toPublicKey L privateKey = privateKeyToAccount L privateKey"

section \<open>Code lenses\<close>

text \<open>
  A lens as \<^verbatim>\<open>onCodeLens\<close> returns it has a range and its data
  \<^verbatim>\<open>[codeLensType, network, content]\<close>; its command is absent until the client asks
  \<^verbatim>\<open>onCodeLensResolve\<close> for it.
\<close>

record CodeLens =
  lens_range :: Range
  lens_command :: "(string \<times> string \<times> string list) option"
  lens_data :: "string list"

definition pushEthereumAddressCodeLenses ::
  "string \<Rightarrow> Range \<Rightarrow> string \<Rightarrow> CodeLens list \<Rightarrow> CodeLens list" where
  "pushEthereumAddressCodeLenses codeLensType rng c codeLenses =
     foldl (\<lambda>acc network.
              acc @ [\<lparr> lens_range = rng, lens_command = None,
                       lens_data = [codeLensType, network, c] \<rparr>])
       codeLenses NETWORKS"

fun addressLenses :: "libraries \<Rightarrow> StringLocation list \<Rightarrow> CodeLens list \<Rightarrow> CodeLens list" where
  "addressLenses L [] codeLenses = codeLenses"
| "addressLenses L (element # rest) codeLenses =
     addressLenses L rest
       (if isValidEthereumAddress L (content element)
        then pushEthereumAddressCodeLenses CODE_LENS_TYPE_ETH_ADDRESS (loc_range element)
               (content element) codeLenses
        else codeLenses)"

fun privateKeyLenses ::
  "libraries \<Rightarrow> StringLocation list \<Rightarrow> CodeLens list \<Rightarrow> exn + CodeLens list" where
  "privateKeyLenses L [] codeLenses = Inr codeLenses"
| "privateKeyLenses L (element # rest) codeLenses =
     (case isPrivateKey L (content element) of
        Inl x \<Rightarrow> Inl x
      | Inr b \<Rightarrow>
          if b then
            (case toPublicKey L (content element) of
               Inl x \<Rightarrow> Inl x
             | Inr address \<Rightarrow>
                 privateKeyLenses L rest
                   (pushEthereumAddressCodeLenses CODE_LENS_TYPE_ETH_PRIVATE_KEY
                      (loc_range element) address codeLenses))
          else privateKeyLenses L rest codeLenses)"

text \<open>
  The handler of \<^verbatim>\<open>connection.onCodeLens\<close>; \<open>documents\<close> is the manager of the open
  documents, by uri.
\<close>

definition onCodeLens ::
  "libraries \<Rightarrow> (string \<rightharpoonup> TextDocument) \<Rightarrow> string \<Rightarrow> exn + CodeLens list" where
  "onCodeLens L documents u =
     (case documents u of
        Some textDocument \<Rightarrow>
          privateKeyLenses L (findPossiblePrivateKeys textDocument)
            (addressLenses L (findPossibleEthereumAddresses textDocument) [])
      | None \<Rightarrow> Inr [])"

section \<open>Quick fixes\<close>

record TextEdit =
  edit_range :: Range
  newText :: string

record WorkspaceEdit =
  changes :: "(string \<times> TextEdit list) list"

record CodeAction =
  title :: string
  kind :: string
  edit :: WorkspaceEdit
  diagnostics :: "Diagnostic list"

text \<open>
  \<^verbatim>\<open>String(diagnostic.code)\<close>: a code of the protocol is a string, a number or
  absent. A number is modelled as an integer, written in decimal.
\<close>

fun showNat :: "nat \<Rightarrow> string" where
  "showNat n =
     (if n < 10 then [''0123456789'' ! n]
      else showNat (n div 10) @ [''0123456789'' ! (n mod 10)])"

declare showNat.simps [simp del]

fun String :: "DiagnosticCode \<Rightarrow> string" where
  "String (CodeString s) = s"
| "String (CodeNumber i) = (if i < 0 then ''-'' @ showNat (nat (- i)) else showNat (nat i))"
| "String CodeUndefined = ''undefined''"

definition getQuickFix ::
  "Diagnostic \<Rightarrow> string \<Rightarrow> Range \<Rightarrow> string \<Rightarrow> TextDocument \<Rightarrow> CodeAction" where
  "getQuickFix diagnostic ttl rng replacement textDocument =
     \<lparr> title = ttl, kind = ''quickfix'',
       edit = \<lparr> changes = [(uri textDocument,
                             [\<lparr> edit_range = rng, newText = replacement \<rparr>])] \<rparr>,
       diagnostics = [diagnostic] \<rparr>"

text \<open>
  \<^verbatim>\<open>getCodeActions\<close>: the body of its \<^verbatim>\<open>forEach\<close> as a step on the list of
  actions built so far. Its third parameter is not used by the source and is left out.
\<close>

definition codeActionStep :: "TextDocument \<Rightarrow> CodeAction list \<Rightarrow> Diagnostic \<Rightarrow> CodeAction list" where
  "codeActionStep textDocument codeActions diagnostic =
     (if startsWith (String (code diagnostic)) DIAGNOSTIC_TYPE_NOT_CHECKSUM_ADDRESS then
        codeActions @
        [getQuickFix diagnostic ''Convert to checksum address'' (diag_range diagnostic)
           (substring (String (code diagnostic)) (length DIAGNOSTIC_TYPE_NOT_CHECKSUM_ADDRESS))
           textDocument]
      else if startsWith (String (code diagnostic)) DIAGNOSTIC_TYPE_CONVERT_ENS_NAME then
        (let replacement =
               substring (String (code diagnostic)) (length DIAGNOSTIC_TYPE_CONVERT_ENS_NAME)
         in codeActions @
            [getQuickFix diagnostic
               (''Convert to ENS name '' @ [CHR 0x22] @ replacement @ [CHR 0x22])
               (diag_range diagnostic) replacement textDocument])
      else codeActions)"

definition getCodeActions :: "Diagnostic list \<Rightarrow> TextDocument \<Rightarrow> CodeAction list" where
  "getCodeActions ds textDocument = foldl (codeActionStep textDocument) [] ds"

section \<open>Specification-level notions\<close>

text \<open>
  All matches of a pattern in a text at or after a position, left to right, each with
  its index and its text. The scanners are compared with this list.
\<close>

definition matchesFrom :: "pattern \<Rightarrow> string \<Rightarrow> nat \<Rightarrow> (nat \<times> string) list" where
  "matchesFrom pat text lastIndex =
     map (\<lambda>i. (i, take (matchLength pat) (drop i text)))
       (filter (matchAt pat text) [lastIndex..<Suc (length text)])"

text \<open>
  The diagnostics one examined candidate contributes to a pass that completes: an error
  for an invalid address, otherwise a warning when the text is not its checksum form
  and a hint when the reverse lookup reports a name.
\<close>

definition errorDiagnostic :: "server \<Rightarrow> TextDocument \<Rightarrow> StringLocation \<Rightarrow> Diagnostic" where
  "errorDiagnostic sv textDocument element =
     \<lparr> severity = Error, diag_range = loc_range element,
       message = content element @ '' is not a valid Ethereum address'', source = NAME,
       code = CodeString DIAGNOSTIC_TYPE_NOT_VALID_ADDRESS,
       relatedInformation =
         (if hasDiagnosticRelatedInformationCapability sv
          then [\<lparr> location_uri = uri textDocument, location_range = loc_range element,
                   related_message =
                     ''The string appears to be an Ethereum address but fails checksum.'' \<rparr>]
          else []) \<rparr>"

definition warningDiagnostic ::
  "server \<Rightarrow> TextDocument \<Rightarrow> StringLocation \<Rightarrow> string \<Rightarrow> Diagnostic" where
  "warningDiagnostic sv textDocument element checksumAddress =
     \<lparr> severity = Warning, diag_range = loc_range element,
       message = content element @ '' is not a checksum address'', source = NAME,
       code = CodeString (DIAGNOSTIC_TYPE_NOT_CHECKSUM_ADDRESS @ checksumAddress),
       relatedInformation =
         (if hasDiagnosticRelatedInformationCapability sv
          then [\<lparr> location_uri = uri textDocument, location_range = loc_range element,
                   related_message =
                     ''Use a checksum address as a best practice to ensure the address is valid.'' \<rparr>]
          else []) \<rparr>"

definition hintDiagnostic ::
  "server \<Rightarrow> TextDocument \<Rightarrow> StringLocation \<Rightarrow> string \<Rightarrow> Diagnostic" where
  "hintDiagnostic sv textDocument element ensName =
     \<lparr> severity = Hint, diag_range = loc_range element,
       message = content element @ '' can be converted to its ENS name '' @ [CHR 0x22]
                   @ ensName @ [CHR 0x22],
       source = NAME,
       code = CodeString (DIAGNOSTIC_TYPE_CONVERT_ENS_NAME @ ensName),
       relatedInformation =
         (if hasDiagnosticRelatedInformationCapability sv
          then [\<lparr> location_uri = uri textDocument, location_range = loc_range element,
                   related_message =
                     ''Convert the Ethereum address to its ENS name for better readability.'' \<rparr>]
          else []) \<rparr>"

definition elementDiagnostics ::
  "libraries \<Rightarrow> server \<Rightarrow> TextDocument \<Rightarrow> StringLocation \<Rightarrow> Diagnostic list" where
  "elementDiagnostics L sv textDocument element =
     (if \<not> isValidEthereumAddress L (content element)
      then [errorDiagnostic sv textDocument element]
      else
        (case toChecksumAddress L (content element) of
           Inr c \<Rightarrow> if content element \<noteq> c
                    then [warningDiagnostic sv textDocument element c] else []
         | Inl x \<Rightarrow> []) @
        (case reverseENSLookup L sv (content element) of
           Inr n \<Rightarrow> if n \<noteq> [] then [hintDiagnostic sv textDocument element n] else []
         | Inl x \<Rightarrow> []))"

text \<open>The lenses of one span: one per network, in the order of \<^verbatim>\<open>NETWORKS\<close>.\<close>

definition lensesFor :: "string \<Rightarrow> Range \<Rightarrow> string \<Rightarrow> CodeLens list" where
  "lensesFor codeLensType rng c =
     map (\<lambda>network. \<lparr> lens_range = rng, lens_command = None,
                       lens_data = [codeLensType, network, c] \<rparr>) NETWORKS"

section \<open>Concrete inputs for the evaluated examples\<close>

text \<open>
  Two real addresses in lower case and in checksum form, the private key 1 with its
  address, and library doubles that answer on these inputs as the libraries do.
\<close>

definition vitalikLower :: string where
  "vitalikLower = ''0xd8da6bf26964af9d7eed9e03e53415d37aa96045''"

definition vitalikChecksum :: string where
  "vitalikChecksum = ''0xd8dA6BF26964aF9D7eEd9e03E53415D37aA96045''"

definition daiLower :: string where
  "daiLower = ''0x6b175474e89094c44da98b954eedeac495271d0f''"

definition daiChecksum :: string where
  "daiChecksum = ''0x6B175474E89094C44Da98b954EedeAC495271d0F''"

definition keyOne :: string where
  "keyOne = ''0000000000000000000000000000000000000000000000000000000000000001''"

definition keyOneAddress :: string where
  "keyOneAddress = ''0x7E5F4552091A69125d5DfCb7b8C2659029395Bdf''"

definition notAnAddress :: exn where
  "notAnAddress = LibraryError ''Given address is not a valid Ethereum address.''"

definition notFound :: exn where
  "notFound = LibraryError ''ENS name not found''"

definition stubLibraries :: "ENS \<Rightarrow> libraries" where
  "stubLibraries e =
     \<lparr> isAddress = (\<lambda>s. s \<in> set [vitalikLower, vitalikChecksum, daiLower, daiChecksum]),
       toChecksumAddress =
         (\<lambda>s. if s = vitalikLower \<or> s = vitalikChecksum then Inr vitalikChecksum
               else if s = daiLower \<or> s = daiChecksum then Inr daiChecksum
               else Inl notAnAddress),
       privateKeyToAccount =
         (\<lambda>s. if s = ''0x'' @ keyOne then Inr keyOneAddress
               else Inl (LibraryError ''Private key must be 32 bytes long'')),
       toBuffer =
         (\<lambda>s. if s = ''0x'' @ keyOne then Inr (replicate 31 0 @ [1])
               else if s = ''0x12'' then Inr [18]
               else Inl (LibraryError ''Cannot convert string to buffer'')),
       fromPrivateKey =
         (\<lambda>b. if b = replicate 31 0 @ [1] then Inr ()
               else Inl (LibraryError ''Private key does not satisfy the curve requirements'')),
       newENS = (\<lambda>provider. e) \<rparr>"

definition consistentENS :: ENS where
  "consistentENS =
     \<lparr> reverse_name =
         (\<lambda>a. if a = vitalikLower \<or> a = vitalikChecksum then Resolves ''vitalik.eth''
               else Rejects notFound),
       resolver_addr =
         (\<lambda>n. if n = ''vitalik.eth'' then Resolves vitalikLower
               else if n = ''unset.eth'' then Resolves zeroAddress
               else Rejects notFound) \<rparr>"

definition rejectingENS :: ENS where
  "rejectingENS =
     \<lparr> reverse_name = (\<lambda>a. Rejects notFound), resolver_addr = (\<lambda>n. Rejects notFound) \<rparr>"

definition spoofingENS :: ENS where
  "spoofingENS =
     \<lparr> reverse_name = (\<lambda>a. Resolves ''vitalik.eth''),
       resolver_addr =
         (\<lambda>n. if n = ''vitalik.eth'' then Resolves vitalikLower else Rejects notFound) \<rparr>"

definition freshServer :: server where
  "freshServer =
     \<lparr> ens = None, web3provider = None, amberdataApiKeySetting = None,
       hasDiagnosticRelatedInformationCapability = False, sent = [] \<rparr>"

definition serverWith :: "ENS \<Rightarrow> server" where
  "serverWith e = freshServer\<lparr> ens := Some e \<rparr>"

definition settingsWithout :: "real \<Rightarrow> DefiSettings" where
  "settingsWithout cap =
     \<lparr> maxNumberOfProblems = cap, infuraProjectId = [], infuraProjectSecret = [],
       amberdataApiKey = [] \<rparr>"

definition settingsWith :: "real \<Rightarrow> DefiSettings" where
  "settingsWith cap =
     \<lparr> maxNumberOfProblems = cap, infuraProjectId = ''id'', infuraProjectSecret = ''secret'',
       amberdataApiKey = [] \<rparr>"

definition oneLine :: "string \<Rightarrow> TextDocument" where
  "oneLine text =
     \<lparr> uri = ''file:///a.txt'', getText = text,
       positionAt = (\<lambda>n. \<lparr> line = 0, character = n \<rparr>) \<rparr>"

definition span :: "nat \<Rightarrow> nat \<Rightarrow> Range" where
  "span a b = \<lparr> start = \<lparr> line = 0, character = a \<rparr>, endPos = \<lparr> line = 0, character = b \<rparr> \<rparr>"

definition exampleWarning :: Diagnostic where
  "exampleWarning =
     \<lparr> severity = Warning, diag_range = span 6 48,
       message = vitalikLower @ '' is not a checksum address'', source = NAME,
       code = CodeString (DIAGNOSTIC_TYPE_NOT_CHECKSUM_ADDRESS @ vitalikChecksum),
       relatedInformation = [] \<rparr>"

definition exampleDocument :: TextDocument where
  "exampleDocument = oneLine (''addr: '' @ vitalikLower)"

definition exampleHint :: Diagnostic where
  "exampleHint = exampleWarning\<lparr> severity := Hint, code := CodeString ''ConvertENSNamevitalik.eth'' \<rparr>"

definition exampleError :: Diagnostic where
  "exampleError = exampleWarning\<lparr> severity := Error, code := CodeString DIAGNOSTIC_TYPE_NOT_VALID_ADDRESS \<rparr>"

definition exampleNumbered :: Diagnostic where
  "exampleNumbered = exampleWarning\<lparr> code := CodeNumber 42 \<rparr>"

definition lensDocument :: TextDocument where
  "lensDocument = oneLine (vitalikLower @ '' '' @ keyOne)"

definition publishedSummary ::
  "exn + server \<Rightarrow> exn + (string \<times> (DiagnosticSeverity \<times> Range \<times> DiagnosticCode) list) list" where
  "publishedSummary r =
     map_sum id
       (\<lambda>sv. map (\<lambda>(u, ds). (u, map (\<lambda>d. (severity d, diag_range d, code d)) ds)) (sent sv)) r"

definition twoAddresses :: TextDocument where
  "twoAddresses = oneLine (vitalikLower @ '' '' @ daiLower)"

definition firstCandidate :: StringLocation where
  "firstCandidate = \<lparr> loc_range = span 0 42, content = vitalikLower \<rparr>"

definition secondCandidate :: StringLocation where
  "secondCandidate = \<lparr> loc_range = span 43 85, content = daiLower \<rparr>"

definition namedServer :: server where
  "namedServer = freshServer\<lparr> web3provider := Some ''https://:secret@mainnet.infura.io/v3/id'',
                               ens := Some consistentENS \<rparr>"

section \<open>The scanners return every match\<close>

lemma isHexDigit_isWordChar: "isHexDigit c \<Longrightarrow> isWordChar c"
  by (auto simp: isHexDigit_def isWordChar_def)

lemma not_hex_x: "\<not> isHexDigit (CHR ''x'')"
  by (simp add: isHexDigit_def)

lemma word_x: "isWordChar (CHR ''x'')"
  by (simp add: isWordChar_def)

lemma list_all_take_drop_nth:
  assumes "list_all P (take n (drop i xs))" and "i + n \<le> length xs" and "i \<le> p" and "p < i + n"
  shows "P (xs ! p)"
proof -
  from assms(1) have "\<forall>k<length (take n (drop i xs)). P (take n (drop i xs) ! k)"
    by (simp only: list_all_length)
  moreover from assms have "p - i < length (take n (drop i xs))" by simp
  ultimately have "P (take n (drop i xs) ! (p - i))" by blast
  with assms show ?thesis by simp
qed

lemma matchAt_Address_nth:
  assumes "matchAt AddressPattern text i"
  shows "i + 42 \<le> length text" and "text ! i = CHR ''0''" and "text ! Suc i = CHR ''x''"
    and "\<And>p. i + 2 \<le> p \<Longrightarrow> p < i + 42 \<Longrightarrow> isHexDigit (text ! p)"
    and "wordBoundary text (i + 42)"
proof -
  from assms have len: "i + 42 \<le> length text" and t2: "take 2 (drop i text) = ''0x''"
    and hex: "list_all isHexDigit (take 40 (drop (i + 2) text))"
    and wb: "wordBoundary text (i + 42)"
    by simp_all
  show "i + 42 \<le> length text" by (rule len)
  show "wordBoundary text (i + 42)" by (rule wb)
  have "take 2 (drop i text) ! 0 = CHR ''0''" "take 2 (drop i text) ! 1 = CHR ''x''"
    unfolding t2 by simp_all
  with len show "text ! i = CHR ''0''" "text ! Suc i = CHR ''x''" by simp_all
  fix p :: nat assume p: "i + 2 \<le> p" "p < i + 42"
  show "isHexDigit (text ! p)"
    by (rule list_all_take_drop_nth[OF hex]) (use len p in simp_all)
qed

lemma matchAt_PrivateKey_nth:
  assumes "matchAt PrivateKeyPattern text i"
  shows "i + 64 \<le> length text"
    and "\<And>p. i \<le> p \<Longrightarrow> p < i + 64 \<Longrightarrow> isHexDigit (text ! p)"
    and "wordBoundary text (i + 64)"
proof -
  from assms have len: "i + 64 \<le> length text"
    and hex: "list_all isHexDigit (take 64 (drop i text))"
    and wb: "wordBoundary text (i + 64)"
    by simp_all
  show "i + 64 \<le> length text" by (rule len)
  show "wordBoundary text (i + 64)" by (rule wb)
  fix p :: nat assume p: "i \<le> p" "p < i + 64"
  show "isHexDigit (text ! p)"
    by (rule list_all_take_drop_nth[OF hex]) (use len p in simp_all)
qed

lemma no_boundary_between_word_chars:
  assumes "p < length text" and "q < p" and "p - 1 = q"
    and "isWordChar (text ! q)" and "isWordChar (text ! p)"
  shows "\<not> wordBoundary text p"
  using assms by (auto simp: wordBoundary_def wordCharAt_def)

lemma matchAt_no_overlap:
  assumes mi: "matchAt pat text i" and ij: "i < j" and ji: "j < i + matchLength pat"
  shows "\<not> matchAt pat text j"
proof
  assume mj: "matchAt pat text j"
  show False
  proof (cases pat)
    case AddressPattern
    note a = matchAt_Address_nth[OF mi[unfolded AddressPattern]]
    note b = matchAt_Address_nth[OF mj[unfolded AddressPattern]]
    from ji AddressPattern have ji': "j < i + 42" by simp
    show False
    proof (cases "Suc j < i + 42")
      case True
      with ij have "isHexDigit (text ! Suc j)" by (intro a(4)) simp_all
      with b(3) not_hex_x show False by simp
    next
      case False
      with ji' have e: "Suc j = i + 42" by arith
      with b(3) have x: "text ! (i + 42) = CHR ''x''" by simp
      from e b(1) have lt: "i + 42 < length text" by arith
      have "isHexDigit (text ! (i + 41))" by (intro a(4)) simp_all
      then have "isWordChar (text ! (i + 41))" by (rule isHexDigit_isWordChar)
      moreover have "isWordChar (text ! (i + 42))" using x word_x by simp
      ultimately have "\<not> wordBoundary text (i + 42)"
        using lt by (intro no_boundary_between_word_chars[where q = "i + 41"]) simp_all
      with a(5) show False by simp
    qed
  next
    case PrivateKeyPattern
    note a = matchAt_PrivateKey_nth[OF mi[unfolded PrivateKeyPattern]]
    note b = matchAt_PrivateKey_nth[OF mj[unfolded PrivateKeyPattern]]
    from ji PrivateKeyPattern have ji': "j < i + 64" by simp
    from ij ji' have h: "isHexDigit (text ! (i + 64))" by (intro b(2)) simp_all
    from b(1) ij have lt: "i + 64 < length text" by arith
    have "isHexDigit (text ! (i + 63))" by (intro a(2)) simp_all
    then have "isWordChar (text ! (i + 63))" by (rule isHexDigit_isWordChar)
    moreover have "isWordChar (text ! (i + 64))" using h by (rule isHexDigit_isWordChar)
    ultimately have "\<not> wordBoundary text (i + 64)"
      using lt by (intro no_boundary_between_word_chars[where q = "i + 63"]) simp_all
    with a(3) show False by simp
  qed
qed

lemma find_upt_split:
  assumes "find P [a..<b] = Some i"
  shows "a \<le> i" "i < b" "P i" "filter P [a..<b] = i # filter P [Suc i..<b]"
proof -
  from assms obtain k where k: "k < length [a..<b]" "P ([a..<b] ! k)" "i = [a..<b] ! k"
    "\<forall>j<k. \<not> P ([a..<b] ! j)"
    by (auto simp: find_Some_iff)
  then have i: "i = a + k" and kb: "a + k < b" by simp_all
  show "a \<le> i" "i < b" "P i" using i kb k by simp_all
  have none: "filter P [a..<i] = []"
  proof (rule filter_False, rule ballI)
    fix x assume "x \<in> set [a..<i]"
    then have "a \<le> x" "x < i" by simp_all
    then have "x - a < k" "[a..<b] ! (x - a) = x" using i kb by simp_all
    with k(4) show "\<not> P x" by metis
  qed
  have "[a..<b] = [a..<i] @ i # [Suc i..<b]"
    using \<open>a \<le> i\<close> \<open>i < b\<close> by (metis le_add_diff_inverse less_imp_le_nat upt_add_eq_append upt_conv_Cons)
  then have "filter P [a..<b] = filter P [a..<i] @ filter P (i # [Suc i..<b])"
    by (metis filter_append)
  with none \<open>P i\<close> show "filter P [a..<b] = i # filter P [Suc i..<b]" by simp
qed

lemma matchesFrom_step:
  assumes e: "exec pat text lastIndex = Some m"
  shows "matchesFrom pat text lastIndex = m # matchesFrom pat text (fst m + length (snd m))"
proof -
  obtain i m0 where m: "m = (i, m0)" by (cases m)
  note b = exec_Some_bounds[OF e[unfolded m]]
  let ?n = "Suc (length text)" and ?len = "matchLength pat"
  from e m have f: "find (matchAt pat text) [lastIndex..<?n] = Some i"
    by (auto simp: exec_def)
  note s = find_upt_split[OF f]
  have pos: "0 < ?len" by (cases pat) simp_all
  have none: "filter (matchAt pat text) [Suc i..<i + ?len] = []"
  proof (rule filter_False, rule ballI)
    fix x assume "x \<in> set [Suc i..<i + ?len]"
    then have "i < x" "x < i + ?len" by simp_all
    with b(4) show "\<not> matchAt pat text x" by (intro matchAt_no_overlap)
  qed
  have "[Suc i..<?n] = [Suc i..<i + ?len] @ [i + ?len..<?n]"
    using pos b(2)
    by (metis Suc_leI add.commute less_add_same_cancel2 le_SucI le_add_diff_inverse2 upt_add_eq_append)
  then have "filter (matchAt pat text) [Suc i..<?n] =
      filter (matchAt pat text) [Suc i..<i + ?len] @ filter (matchAt pat text) [i + ?len..<?n]"
    by (metis filter_append)
  with none have "filter (matchAt pat text) [Suc i..<?n] = filter (matchAt pat text) [i + ?len..<?n]"
    by simp
  with s(4) b(3,5) m show ?thesis by (simp add: matchesFrom_def del: upt_Suc)
qed

lemma matchesFrom_None:
  assumes "exec pat text lastIndex = None"
  shows "matchesFrom pat text lastIndex = []"
proof -
  from assms have "find (matchAt pat text) [lastIndex..<Suc (length text)] = None"
    by (simp add: exec_def)
  then have "filter (matchAt pat text) [lastIndex..<Suc (length text)] = []"
    by (simp only: find_None_iff filter_empty_conv) blast
  then show ?thesis by (simp only: matchesFrom_def list.map)
qed

lemma findLoop_matchesFrom:
  "problems < 100 \<Longrightarrow>
   findLoop pat mk textDocument lastIndex problems locations =
     locations @ map (mkLocation mk textDocument) (matchesFrom pat (getText textDocument) lastIndex)"
proof (induction pat mk textDocument lastIndex problems locations rule: findLoop.induct)
  case (1 pat mk textDocument lastIndex problems locations)
  show ?case
  proof (cases "exec pat (getText textDocument) lastIndex")
    case None
    then show ?thesis by (subst findLoop.simps) (simp add: matchesFrom_None)
  next
    case (Some m)
    from "1.IH"[OF Some "1.prems" "1.prems"] Some "1.prems" show ?thesis
      by (subst findLoop.simps) (simp add: matchesFrom_step[OF Some])
  qed
qed

section \<open>Private keys and name resolution: the claims\<close>

text \<open>
  Claim C9: \<^verbatim>\<open>isPrivateKey\<close> never throws: it returns \<^verbatim>\<open>false\<close> whenever the
  conversion to a buffer or the construction of the wallet throws, and \<^verbatim>\<open>true\<close>
  exactly when both succeed.
\<close>

theorem isPrivateKey_total:
  "(\<exists>b. isPrivateKey L s = Inr b) \<and>
   (\<forall>e. toBuffer L s = Inl e \<longrightarrow> isPrivateKey L s = Inr False) \<and>
   (\<forall>buf e. toBuffer L s = Inr buf \<and> fromPrivateKey L buf = Inl e
      \<longrightarrow> isPrivateKey L s = Inr False) \<and>
   (isPrivateKey L s = Inr True
      \<longleftrightarrow> (\<exists>buf. toBuffer L s = Inr buf \<and> fromPrivateKey L buf = Inr ()))"
  by (auto simp: isPrivateKey_def split: sum.splits)

theorem isPrivateKey_total_witness:
  "toBuffer (stubLibraries rejectingENS) ''0xzz'' = Inl (LibraryError ''Cannot convert string to buffer'') \<and>
   isPrivateKey (stubLibraries rejectingENS) ''0xzz'' = Inr False \<and>
   toBuffer (stubLibraries rejectingENS) ''0x12'' = Inr [18] \<and>
   isPrivateKey (stubLibraries rejectingENS) ''0x12'' = Inr False \<and>
   isPrivateKey (stubLibraries rejectingENS) (''0x'' @ keyOne) = Inr True"
  using isPrivateKey_total[of "stubLibraries rejectingENS" "''0xzz''"]
    isPrivateKey_total[of "stubLibraries rejectingENS" "''0x12''"]
    isPrivateKey_total[of "stubLibraries rejectingENS" "''0x'' @ keyOne"]
  by (simp add: stubLibraries_def keyOne_def)

text \<open>
  The forward lookup with a naming client in place: \<^verbatim>\<open>ENSLookup\<close> returns the
  empty string when the promise of the remote call is rejected and when it resolves to
  the zero address, it returns a string whenever the call itself does not throw, and a
  non-empty result is the resolved address of a successful resolution other than the
  zero address.
\<close>

lemma ENSLookup_with_client:
  "ens sv = Some e \<Longrightarrow>
     (\<forall>x. resolver_addr e name = Rejects x \<longrightarrow> ENSLookup sv name = Inr []) \<and>
     (resolver_addr e name = Resolves zeroAddress \<longrightarrow> ENSLookup sv name = Inr []) \<and>
     ((\<forall>x. resolver_addr e name \<noteq> Throws x) \<longrightarrow> (\<exists>r. ENSLookup sv name = Inr r)) \<and>
     (\<forall>r. ENSLookup sv name = Inr r \<and> r \<noteq> []
        \<longrightarrow> resolver_addr e name = Resolves r \<and> r \<noteq> zeroAddress) \<and>
     (\<forall>r. resolver_addr e name = Resolves r \<and> r \<noteq> zeroAddress
        \<longrightarrow> ENSLookup sv name = Inr r)"
  by (auto simp: ENSLookup_def split: remote.splits if_splits)

lemma ENSLookup_with_client_example:
  "ens (serverWith consistentENS) = Some consistentENS \<and>
   resolver_addr consistentENS ''missing.eth'' = Rejects notFound \<and>
   ENSLookup (serverWith consistentENS) ''missing.eth'' = Inr [] \<and>
   resolver_addr consistentENS ''unset.eth'' = Resolves zeroAddress \<and>
   ENSLookup (serverWith consistentENS) ''unset.eth'' = Inr [] \<and>
   resolver_addr consistentENS ''vitalik.eth'' = Resolves vitalikLower \<and>
   ENSLookup (serverWith consistentENS) ''vitalik.eth'' = Inr vitalikLower"
  using ENSLookup_with_client[of "serverWith consistentENS" consistentENS "''missing.eth''"]
    ENSLookup_with_client[of "serverWith consistentENS" consistentENS "''unset.eth''"]
    ENSLookup_with_client[of "serverWith consistentENS" consistentENS "''vitalik.eth''"]
  by (simp add: serverWith_def freshServer_def consistentENS_def zeroAddress_def vitalikLower_def)

lemma ENSLookup_without_client:
  "ens sv = None \<Longrightarrow> ENSLookup sv name = Inl undefinedEns"
  by (simp add: ENSLookup_def)

text \<open>
  Claim C5, on the code: \<^verbatim>\<open>ENSLookup\<close> is to return the empty string and never
  throw when the lookup cannot succeed. On a server that has no naming client (no
  project id in the settings, \<^verbatim>\<open>ens\<close> undefined) no remote call can be made, and
  reading \<^verbatim>\<open>ens.resolver\<close> throws before the \<^verbatim>\<open>catch\<close> callback is attached:
  the lookup of any name, here \<^verbatim>\<open>vitalik.eth\<close>, ends in the exception instead of
  the empty string.
\<close>

theorem ENSLookup_throws_without_client:
  "ENSLookup freshServer ''vitalik.eth'' = Inl undefinedEns"
  by (simp add: ENSLookup_def freshServer_def)

text \<open>
  Claim C4: \<^verbatim>\<open>reverseENSLookup\<close> returns a non-empty name only when the forward
  lookup of that name returned an address whose checksum form is that of the address
  asked for; when the forward lookup throws, or the two checksum forms differ or one of
  them cannot be computed, the result is the empty string. In particular a forward
  lookup that came back empty gives the empty string, the library refusing to
  normalise the empty string.
\<close>

theorem reverseENSLookup_round_trip:
  "(\<forall>name. reverseENSLookup L sv A = Inr name \<and> name \<noteq> [] \<longrightarrow>
      (\<exists>e addr c. ens sv = Some e \<and> reverse_name e A = Resolves name \<and>
         ENSLookup sv name = Inr addr \<and>
         toChecksumAddress L A = Inr c \<and> toChecksumAddress L addr = Inr c)) \<and>
   (\<forall>e name. ens sv = Some e \<and> reverse_name e A = Resolves name \<and>
      (\<forall>addr c. ENSLookup sv name = Inr addr \<and> toChecksumAddress L A = Inr c
         \<longrightarrow> toChecksumAddress L addr \<noteq> Inr c)
      \<longrightarrow> reverseENSLookup L sv A = Inr []) \<and>
   (\<forall>e name x. ens sv = Some e \<and> reverse_name e A = Resolves name \<and>
      ENSLookup sv name = Inr [] \<and> toChecksumAddress L [] = Inl x
      \<longrightarrow> reverseENSLookup L sv A = Inr [])"
  by (auto simp: reverseENSLookup_def split: option.splits remote.splits sum.splits if_splits)

theorem reverseENSLookup_round_trip_witness:
  "reverseENSLookup (stubLibraries consistentENS) (serverWith consistentENS) vitalikChecksum
     = Inr ''vitalik.eth'' \<and>
   ENSLookup (serverWith consistentENS) ''vitalik.eth'' = Inr vitalikLower \<and>
   toChecksumAddress (stubLibraries consistentENS) vitalikLower = Inr vitalikChecksum \<and>
   reverse_name spoofingENS daiLower = Resolves ''vitalik.eth'' \<and>
   ENSLookup (serverWith spoofingENS) ''vitalik.eth'' = Inr vitalikLower \<and>
   toChecksumAddress (stubLibraries spoofingENS) daiLower = Inr daiChecksum \<and>
   reverseENSLookup (stubLibraries spoofingENS) (serverWith spoofingENS) daiLower = Inr []"
  using reverseENSLookup_round_trip[of "stubLibraries consistentENS" "serverWith consistentENS" vitalikChecksum]
    reverseENSLookup_round_trip[of "stubLibraries spoofingENS" "serverWith spoofingENS" daiLower]
  by (simp add: reverseENSLookup_def ENSLookup_def serverWith_def freshServer_def
        consistentENS_def spoofingENS_def stubLibraries_def zeroAddress_def
        vitalikLower_def vitalikChecksum_def daiLower_def daiChecksum_def)

section \<open>Quick fixes: the claim\<close>

lemma startsWith_iff_append: "startsWith s p \<longleftrightarrow> (\<exists>c. s = p @ c)"
proof
  assume "startsWith s p"
  then have "s = p @ drop (length p) s"
    unfolding startsWith_def by (metis append_take_drop_id)
  then show "\<exists>c. s = p @ c" ..
next
  assume "\<exists>c. s = p @ c"
  then show "startsWith s p" by (auto simp: startsWith_def)
qed

lemma startsWith_hd:
  assumes "startsWith s p" and "p \<noteq> []"
  shows "s \<noteq> []" and "hd s = hd p"
proof -
  from assms(1) obtain c where "s = p @ c" unfolding startsWith_iff_append ..
  with assms(2) show "s \<noteq> []" and "hd s = hd p" by simp_all
qed

lemma prefix_heads:
  "hd DIAGNOSTIC_TYPE_NOT_CHECKSUM_ADDRESS = CHR ''N''"
  "hd DIAGNOSTIC_TYPE_CONVERT_ENS_NAME = CHR ''C''"
  "DIAGNOSTIC_TYPE_NOT_CHECKSUM_ADDRESS \<noteq> []"
  "DIAGNOSTIC_TYPE_CONVERT_ENS_NAME \<noteq> []"
  by (simp_all add: DIAGNOSTIC_TYPE_NOT_CHECKSUM_ADDRESS_def DIAGNOSTIC_TYPE_CONVERT_ENS_NAME_def)

lemma prefixes_exclusive:
  assumes "startsWith s DIAGNOSTIC_TYPE_CONVERT_ENS_NAME"
  shows "\<not> startsWith s DIAGNOSTIC_TYPE_NOT_CHECKSUM_ADDRESS"
proof
  assume "startsWith s DIAGNOSTIC_TYPE_NOT_CHECKSUM_ADDRESS"
  from startsWith_hd(2)[OF this prefix_heads(3)] startsWith_hd(2)[OF assms prefix_heads(4)]
  show False by (simp add: prefix_heads)
qed

lemma showNat_digit: "showNat n \<noteq> [] \<and> hd (showNat n) \<in> set ''0123456789''"
proof (induction n rule: showNat.induct)
  case (1 n)
  show ?case
  proof (cases "n < 10")
    case True
    then have eq: "showNat n = [''0123456789'' ! n]" by (subst showNat.simps) simp
    from True have "''0123456789'' ! n \<in> set ''0123456789''" by (intro nth_mem) simp
    with eq show ?thesis by (simp only: list.sel) simp
  next
    case False
    then have eq: "showNat n = showNat (n div 10) @ [''0123456789'' ! (n mod 10)]"
      by (subst showNat.simps) simp
    from 1[OF False] show ?thesis unfolding eq by simp
  qed
qed

lemma String_other_head:
  assumes "code d = CodeNumber i \<or> code d = CodeUndefined"
  shows "String (code d) \<noteq> [] \<and> hd (String (code d)) \<noteq> CHR ''N'' \<and>
         hd (String (code d)) \<noteq> CHR ''C''"
proof -
  have digit: "c \<noteq> CHR ''N'' \<and> c \<noteq> CHR ''C''" if "c \<in> set ''0123456789''" for c
    using that by auto
  from assms show ?thesis
  proof
    assume c: "code d = CodeNumber i"
    show ?thesis
    proof (cases "i < 0")
      case True
      with c show ?thesis by simp
    next
      case False
      with c have "String (code d) = showNat (nat i)" by simp
      with showNat_digit[of "nat i"] digit show ?thesis by metis
    qed
  next
    assume "code d = CodeUndefined"
    then show ?thesis by simp
  qed
qed

lemma String_other_no_prefix:
  assumes "code d = CodeNumber i \<or> code d = CodeUndefined"
  shows "\<not> startsWith (String (code d)) DIAGNOSTIC_TYPE_NOT_CHECKSUM_ADDRESS"
    and "\<not> startsWith (String (code d)) DIAGNOSTIC_TYPE_CONVERT_ENS_NAME"
  using String_other_head[OF assms] startsWith_hd(2)[OF _ prefix_heads(3)]
    startsWith_hd(2)[OF _ prefix_heads(4)]
  by (auto simp only: prefix_heads)

lemma codeActionStep_append:
  "codeActionStep textDocument acc d = acc @ codeActionStep textDocument [] d"
  unfolding codeActionStep_def Let_def by (simp only: append_Nil append_Nil2 if_distrib[of "\<lambda>x. acc @ x"] cong: if_cong)

lemma foldl_codeActionStep:
  "foldl (codeActionStep textDocument) acc ds =
     acc @ concat (map (codeActionStep textDocument []) ds)"
proof (induction ds arbitrary: acc)
  case Nil
  show ?case by simp
next
  case (Cons d ds)
  have "foldl (codeActionStep textDocument) acc (d # ds) =
          foldl (codeActionStep textDocument) (codeActionStep textDocument acc d) ds"
    by simp
  also have "\<dots> = codeActionStep textDocument acc d @
                      concat (map (codeActionStep textDocument []) ds)"
    by (rule Cons.IH)
  also have "\<dots> = (acc @ codeActionStep textDocument [] d) @
                      concat (map (codeActionStep textDocument []) ds)"
    by (subst codeActionStep_append) (rule refl)
  finally show ?case by simp
qed

text \<open>
  Claim C7: \<^verbatim>\<open>getCodeActions\<close> treats each diagnostic on its own, in order. A
  diagnostic whose code is one of the two prefixes followed by a text \<open>c\<close> gives
  exactly one quick fix, holding a single text edit that replaces the diagnostic's
  range with \<open>c\<close>; a code without such a prefix (also a number or an absent code)
  gives no action.
\<close>

theorem getCodeActions_quick_fix:
  "getCodeActions ds textDocument = concat (map (\<lambda>d. getCodeActions [d] textDocument) ds) \<and>
   (\<forall>d c. String (code d) = DIAGNOSTIC_TYPE_NOT_CHECKSUM_ADDRESS @ c \<longrightarrow>
      getCodeActions [d] textDocument =
        [\<lparr> title = ''Convert to checksum address'', kind = ''quickfix'',
            edit = \<lparr> changes = [(uri textDocument,
                                  [\<lparr> edit_range = diag_range d, newText = c \<rparr>])] \<rparr>,
            diagnostics = [d] \<rparr>]) \<and>
   (\<forall>d c. String (code d) = DIAGNOSTIC_TYPE_CONVERT_ENS_NAME @ c \<longrightarrow>
      getCodeActions [d] textDocument =
        [\<lparr> title = ''Convert to ENS name '' @ [CHR 0x22] @ c @ [CHR 0x22], kind = ''quickfix'',
            edit = \<lparr> changes = [(uri textDocument,
                                  [\<lparr> edit_range = diag_range d, newText = c \<rparr>])] \<rparr>,
            diagnostics = [d] \<rparr>]) \<and>
   (\<forall>d. \<not> startsWith (String (code d)) DIAGNOSTIC_TYPE_NOT_CHECKSUM_ADDRESS \<and>
        \<not> startsWith (String (code d)) DIAGNOSTIC_TYPE_CONVERT_ENS_NAME \<longrightarrow>
      getCodeActions [d] textDocument = []) \<and>
   (\<forall>d i. code d = CodeNumber i \<or> code d = CodeUndefined \<longrightarrow>
      getCodeActions [d] textDocument = [])"
proof (intro conjI allI impI)
  show "getCodeActions ds textDocument = concat (map (\<lambda>d. getCodeActions [d] textDocument) ds)"
    by (simp add: getCodeActions_def foldl_codeActionStep)
next
  fix d :: Diagnostic and c assume "String (code d) = DIAGNOSTIC_TYPE_NOT_CHECKSUM_ADDRESS @ c"
  then show "getCodeActions [d] textDocument =
        [\<lparr> title = ''Convert to checksum address'', kind = ''quickfix'',
            edit = \<lparr> changes = [(uri textDocument,
                                  [\<lparr> edit_range = diag_range d, newText = c \<rparr>])] \<rparr>,
            diagnostics = [d] \<rparr>]"
    by (simp add: getCodeActions_def codeActionStep_def startsWith_def substring_def
          getQuickFix_def)
next
  fix d :: Diagnostic and c assume a: "String (code d) = DIAGNOSTIC_TYPE_CONVERT_ENS_NAME @ c"
  then have "startsWith (String (code d)) DIAGNOSTIC_TYPE_CONVERT_ENS_NAME"
    by (simp add: startsWith_def)
  then have "\<not> startsWith (String (code d)) DIAGNOSTIC_TYPE_NOT_CHECKSUM_ADDRESS"
    by (rule prefixes_exclusive)
  with a show "getCodeActions [d] textDocument =
        [\<lparr> title = ''Convert to ENS name '' @ [CHR 0x22] @ c @ [CHR 0x22], kind = ''quickfix'',
            edit = \<lparr> changes = [(uri textDocument,
                                  [\<lparr> edit_range = diag_range d, newText = c \<rparr>])] \<rparr>,
            diagnostics = [d] \<rparr>]"
    by (simp add: getCodeActions_def codeActionStep_def substring_def getQuickFix_def Let_def)
       (simp add: startsWith_def)
next
  fix d :: Diagnostic assume "\<not> startsWith (String (code d)) DIAGNOSTIC_TYPE_NOT_CHECKSUM_ADDRESS \<and>
        \<not> startsWith (String (code d)) DIAGNOSTIC_TYPE_CONVERT_ENS_NAME"
  then show "getCodeActions [d] textDocument = []"
    by (simp add: getCodeActions_def codeActionStep_def)
next
  fix d :: Diagnostic and i assume "code d = CodeNumber i \<or> code d = CodeUndefined"
  from String_other_no_prefix[OF this] show "getCodeActions [d] textDocument = []"
    by (simp add: getCodeActions_def codeActionStep_def)
qed

theorem getCodeActions_quick_fix_witness:
  "getCodeActions [exampleWarning, exampleNumbered, exampleHint, exampleError]
      exampleDocument =
     [\<lparr> title = ''Convert to checksum address'', kind = ''quickfix'',
         edit = \<lparr> changes = [(''file:///a.txt'',
                               [\<lparr> edit_range = span 6 48, newText = vitalikChecksum \<rparr>])] \<rparr>,
         diagnostics = [exampleWarning] \<rparr>,
      \<lparr> title = ''Convert to ENS name '' @ [CHR 0x22] @ ''vitalik.eth'' @ [CHR 0x22],
         kind = ''quickfix'',
         edit = \<lparr> changes = [(''file:///a.txt'',
                               [\<lparr> edit_range = span 6 48, newText = ''vitalik.eth'' \<rparr>])] \<rparr>,
         diagnostics = [exampleHint] \<rparr>]"
proof -
  let ?doc = "exampleDocument"
  let ?ds = "[exampleWarning, exampleNumbered, exampleHint, exampleError]"
  note t = getCodeActions_quick_fix[of ?ds ?doc]
  note t1 = t[THEN conjunct1]
  note t2 = t[THEN conjunct2, THEN conjunct1, rule_format]
  note t3 = t[THEN conjunct2, THEN conjunct2, THEN conjunct1, rule_format]
  note t4 = t[THEN conjunct2, THEN conjunct2, THEN conjunct2, THEN conjunct1, rule_format]
  note t5 = t[THEN conjunct2, THEN conjunct2, THEN conjunct2, THEN conjunct2, rule_format]
  have 1: "String (code exampleWarning) = DIAGNOSTIC_TYPE_NOT_CHECKSUM_ADDRESS @ vitalikChecksum"
    by (simp add: exampleWarning_def)
  have 2: "code exampleNumbered = CodeNumber 42 \<or> code exampleNumbered = CodeUndefined"
    by (simp add: exampleNumbered_def)
  have 3: "String (code exampleHint) = DIAGNOSTIC_TYPE_CONVERT_ENS_NAME @ ''vitalik.eth''"
    by (simp add: exampleHint_def DIAGNOSTIC_TYPE_CONVERT_ENS_NAME_def)
  have 4: "\<not> startsWith (String (code exampleError)) DIAGNOSTIC_TYPE_NOT_CHECKSUM_ADDRESS \<and>
           \<not> startsWith (String (code exampleError)) DIAGNOSTIC_TYPE_CONVERT_ENS_NAME"
    by (simp add: exampleError_def startsWith_def DIAGNOSTIC_TYPE_NOT_VALID_ADDRESS_def
          DIAGNOSTIC_TYPE_NOT_CHECKSUM_ADDRESS_def DIAGNOSTIC_TYPE_CONVERT_ENS_NAME_def)
  have r: "diag_range exampleWarning = span 6 48" "diag_range exampleHint = span 6 48"
    "uri ?doc = ''file:///a.txt''"
    by (simp_all add: exampleWarning_def exampleHint_def exampleDocument_def oneLine_def)
  show ?thesis
    unfolding t1 by (simp add: t2[OF 1] t3[OF 3] t4[OF 4] t5[OF 2] r)
qed

section \<open>The scanners: the claims\<close>

lemma findPossibleEthereumAddresses_matches:
  "findPossibleEthereumAddresses textDocument =
     map (mkLocation (\<lambda>m0. m0) textDocument) (matchesFrom AddressPattern (getText textDocument) 0)"
  unfolding findPossibleEthereumAddresses_def by (subst findLoop_matchesFrom) simp_all

lemma findPossiblePrivateKeys_matches:
  "findPossiblePrivateKeys textDocument =
     map (mkLocation normalizeHex textDocument) (matchesFrom PrivateKeyPattern (getText textDocument) 0)"
  unfolding findPossiblePrivateKeys_def by (subst findLoop_matchesFrom) simp_all

lemma normalizeHex_match:
  assumes "matchAt PrivateKeyPattern text i"
  shows "normalizeHex (take 64 (drop i text)) = ''0x'' @ take 64 (drop i text)"
proof -
  note m = matchAt_PrivateKey_nth[OF assms]
  have "\<not> startsWith (take 64 (drop i text)) ''0x''"
  proof
    assume "startsWith (take 64 (drop i text)) ''0x''"
    then have "take 2 (take 64 (drop i text)) = ''0x''" by (simp add: startsWith_def numeral_2_eq_2)
    then have "take 2 (take 64 (drop i text)) ! 1 = CHR ''x''" by simp
    with m(1) have "text ! (i + 1) = CHR ''x''" by simp
    moreover have "isHexDigit (text ! (i + 1))" by (intro m(2)) simp_all
    ultimately show False using not_hex_x by simp
  qed
  then show ?thesis by (simp add: normalizeHex_def)
qed

section \<open>A text of repeated addresses\<close>

lemma wordCharAt_append: "wordCharAt (u @ rest) (length u + q) = wordCharAt rest q"
  by (simp add: wordCharAt_def nth_append)

lemma wordBoundary_append:
  assumes "0 < p"
  shows "wordBoundary (u @ rest) (length u + p) = wordBoundary rest p"
proof -
  from assms obtain q where p: "p = Suc q" by (cases p) simp_all
  have "wordCharAt (u @ rest) (length u + q) = wordCharAt rest q"
    and "wordCharAt (u @ rest) (length u + Suc q) = wordCharAt rest (Suc q)"
    by (rule wordCharAt_append)+
  then show ?thesis unfolding p by (simp add: wordBoundary_def)
qed

lemma matchAt_Address_append:
  "matchAt AddressPattern (u @ rest) (length u + j) = matchAt AddressPattern rest j"
proof -
  have "wordBoundary (u @ rest) (length u + (j + 42)) = wordBoundary rest (j + 42)"
    by (rule wordBoundary_append) simp
  then show ?thesis by (simp add: add.assoc)
qed

lemma filter_matchAt_append:
  "filter (matchAt AddressPattern (u @ rest)) [length u..<Suc (length (u @ rest))] =
     map (\<lambda>j. length u + j) (filter (matchAt AddressPattern rest) [0..<Suc (length rest)])"
proof -
  have "[length u..<Suc (length (u @ rest))] = map (\<lambda>j. length u + j) [0..<Suc (length rest)]"
    by (simp add: map_add_upt add.commute del: upt_Suc)
  then show ?thesis
    by (simp only: filter_map comp_def matchAt_Address_append)
qed

lemma matchAt_first_address:
  "matchAt AddressPattern ((vitalikLower @ '' '') @ rest) 0"
  by (simp add: vitalikLower_def isHexDigit_def wordBoundary_def wordCharAt_def isWordChar_def)

lemma filter_first_address:
  "filter (matchAt AddressPattern ((vitalikLower @ '' '') @ rest)) [0..<length (vitalikLower @ '' '')] = [0]"
proof -
  let ?t = "(vitalikLower @ '' '') @ rest"
  have len: "length (vitalikLower @ '' '') = 43" by (simp add: vitalikLower_def)
  have no: "\<not> matchAt AddressPattern ?t i" if "0 < i" "i < 43" for i
  proof (cases "i < 42")
    case True
    with that show ?thesis by (intro matchAt_no_overlap[OF matchAt_first_address]) simp_all
  next
    case False
    with that have "i = 42" by simp
    then show ?thesis by (simp add: vitalikLower_def)
  qed
  have s: "[0..<43] = 0 # [1..<43]" by (simp add: upt_conv_Cons)
  have f: "filter (matchAt AddressPattern ?t) [1..<43] = []"
    by (rule filter_False) (use no in auto)
  have m0: "matchAt AddressPattern ?t 0" by (rule matchAt_first_address)
  show ?thesis unfolding len s by (simp only: filter.simps m0 f if_True)
qed

lemma matches_repeated_step:
  "length (filter (matchAt AddressPattern ((vitalikLower @ '' '') @ rest))
             [0..<Suc (length ((vitalikLower @ '' '') @ rest))]) =
   Suc (length (filter (matchAt AddressPattern rest) [0..<Suc (length rest)]))"
proof -
  define u where "u = vitalikLower @ '' ''"
  define P where "P = matchAt AddressPattern (u @ rest)"
  define xs where "xs = filter (matchAt AddressPattern rest) [0..<Suc (length rest)]"
  have split: "[0..<Suc (length (u @ rest))] = [0..<length u] @ [length u..<Suc (length (u @ rest))]"
    by (metis le_add1 le_SucI length_append upt_add_eq_append zero_le le_add_diff_inverse)
  have a: "filter P [0..<length u] = [0]"
    unfolding P_def u_def by (rule filter_first_address)
  have b: "filter P [length u..<Suc (length (u @ rest))] = map (\<lambda>j. length u + j) xs"
    unfolding P_def xs_def by (rule filter_matchAt_append)
  have "filter P [0..<Suc (length (u @ rest))] = [0] @ map (\<lambda>j. length u + j) xs"
    by (simp only: split filter_append a b)
  then have "length (filter P [0..<Suc (length (u @ rest))]) =
               length ([0::nat] @ map (\<lambda>j. length u + j) xs)"
    by (rule arg_cong)
  also have "\<dots> = Suc (length xs)" by simp
  finally show ?thesis unfolding P_def u_def xs_def .
qed

lemma matches_repeated:
  "length (filter (matchAt AddressPattern (concat (replicate n (vitalikLower @ '' ''))))
             [0..<Suc (length (concat (replicate n (vitalikLower @ '' ''))))]) = n"
proof (induction n)
  case 0
  show ?case by simp
next
  case (Suc n)
  have "concat (replicate (Suc n) (vitalikLower @ '' '')) =
          (vitalikLower @ '' '') @ concat (replicate n (vitalikLower @ '' ''))"
    by simp
  then show ?case using Suc.IH by (simp only: matches_repeated_step)
qed

lemma scan_repeated:
  "length (findPossibleEthereumAddresses (oneLine (concat (replicate n (vitalikLower @ '' ''))))) = n"
proof -
  have "getText (oneLine (concat (replicate n (vitalikLower @ '' '')))) =
          concat (replicate n (vitalikLower @ '' ''))"
    by (simp add: oneLine_def)
  then show ?thesis
    by (simp only: findPossibleEthereumAddresses_matches matchesFrom_def length_map matches_repeated)
qed

lemma findPossibleEthereumAddresses_all_matches:
  "findPossibleEthereumAddresses textDocument =
     map (\<lambda>i. \<lparr> loc_range = \<lparr> start = positionAt textDocument i,
                                    endPos = positionAt textDocument (i + 42) \<rparr>,
                      content = take 42 (drop i (getText textDocument)) \<rparr>)
       (filter (matchAt AddressPattern (getText textDocument))
          [0..<Suc (length (getText textDocument))])"
proof -
  let ?text = "getText textDocument"
  have "mkLocation (\<lambda>m0. m0) textDocument (i, take 42 (drop i ?text)) =
          \<lparr> loc_range = \<lparr> start = positionAt textDocument i,
                          endPos = positionAt textDocument (i + 42) \<rparr>,
            content = take 42 (drop i ?text) \<rparr>"
    if "matchAt AddressPattern ?text i" for i
    using matchAt_Address_nth(1)[OF that] by (simp add: mkLocation_def)
  then show ?thesis
    by (simp add: findPossibleEthereumAddresses_matches matchesFrom_def comp_def del: upt_Suc
          cong: map_cong)
qed

lemma findPossiblePrivateKeys_all_matches:
  "findPossiblePrivateKeys textDocument =
     map (\<lambda>i. \<lparr> loc_range = \<lparr> start = positionAt textDocument i,
                                    endPos = positionAt textDocument (i + 64) \<rparr>,
                      content = ''0x'' @ take 64 (drop i (getText textDocument)) \<rparr>)
       (filter (matchAt PrivateKeyPattern (getText textDocument))
          [0..<Suc (length (getText textDocument))])"
proof -
  let ?text = "getText textDocument"
  have "mkLocation normalizeHex textDocument (i, take 64 (drop i ?text)) =
          \<lparr> loc_range = \<lparr> start = positionAt textDocument i,
                          endPos = positionAt textDocument (i + 64) \<rparr>,
            content = ''0x'' @ take 64 (drop i ?text) \<rparr>"
    if "matchAt PrivateKeyPattern ?text i" for i
    using matchAt_PrivateKey_nth(1)[OF that] normalizeHex_match[OF that]
    by (simp add: mkLocation_def)
  then show ?thesis
    by (simp add: findPossiblePrivateKeys_matches matchesFrom_def comp_def del: upt_Suc
          cong: map_cong)
qed

text \<open>
  Claim C3, on the code: \<^verbatim>\<open>findPossibleEthereumAddresses\<close> never changes the
  counter it compares with 100 and never reads the configured limit, so it returns a
  span for every match. On a text of 101 addresses, each followed by a space, it
  returns 101 spans.
\<close>

theorem findPossibleEthereumAddresses_exceeds_cap:
  "length (findPossibleEthereumAddresses
             (oneLine (concat (replicate 101 (vitalikLower @ '' ''))))) = 101"
  by (rule scan_repeated)

text \<open>
  Claim C10: every span of \<^verbatim>\<open>findPossiblePrivateKeys\<close> comes from a match of 64
  hexadecimal characters at some offset \<open>i\<close>; its range runs from \<open>i\<close> to \<open>i + 64\<close>
  and its content is \<^verbatim>\<open>0x\<close> followed by the 64 matched characters, 66 characters
  that differ from the text in the range. The content of a span of
  \<^verbatim>\<open>findPossibleEthereumAddresses\<close> is the matched text itself.
\<close>

theorem findPossiblePrivateKeys_content:
  "(\<forall>e \<in> set (findPossiblePrivateKeys textDocument).
      \<exists>i. matchAt PrivateKeyPattern (getText textDocument) i \<and>
          i + 64 \<le> length (getText textDocument) \<and>
          loc_range e = \<lparr> start = positionAt textDocument i,
                           endPos = positionAt textDocument (i + 64) \<rparr> \<and>
          content e = ''0x'' @ take 64 (drop i (getText textDocument)) \<and>
          length (content e) = 66 \<and>
          content e \<noteq> take 64 (drop i (getText textDocument))) \<and>
   (\<forall>e \<in> set (findPossibleEthereumAddresses textDocument).
      \<exists>i. matchAt AddressPattern (getText textDocument) i \<and>
          loc_range e = \<lparr> start = positionAt textDocument i,
                           endPos = positionAt textDocument (i + 42) \<rparr> \<and>
          content e = take 42 (drop i (getText textDocument)))"
proof (intro conjI ballI)
  fix e assume "e \<in> set (findPossiblePrivateKeys textDocument)"
  then obtain i where i: "matchAt PrivateKeyPattern (getText textDocument) i"
    and e: "e = \<lparr> loc_range = \<lparr> start = positionAt textDocument i,
                                  endPos = positionAt textDocument (i + 64) \<rparr>,
                    content = ''0x'' @ take 64 (drop i (getText textDocument)) \<rparr>"
    unfolding findPossiblePrivateKeys_all_matches by auto
  from matchAt_PrivateKey_nth(1)[OF i] have len: "i + 64 \<le> length (getText textDocument)" .
  then have "length (''0x'' @ take 64 (drop i (getText textDocument))) = 66" by simp
  moreover from len have "length (take 64 (drop i (getText textDocument))) = 64" by simp
  ultimately have "''0x'' @ take 64 (drop i (getText textDocument))
                     \<noteq> take 64 (drop i (getText textDocument))"
    by (auto dest: arg_cong[where f = length])
  with i len e
  show "\<exists>i. matchAt PrivateKeyPattern (getText textDocument) i \<and>
          i + 64 \<le> length (getText textDocument) \<and>
          loc_range e = \<lparr> start = positionAt textDocument i,
                           endPos = positionAt textDocument (i + 64) \<rparr> \<and>
          content e = ''0x'' @ take 64 (drop i (getText textDocument)) \<and>
          length (content e) = 66 \<and>
          content e \<noteq> take 64 (drop i (getText textDocument))"
    by (intro exI[of _ i]) simp
next
  fix e assume "e \<in> set (findPossibleEthereumAddresses textDocument)"
  then show "\<exists>i. matchAt AddressPattern (getText textDocument) i \<and>
          loc_range e = \<lparr> start = positionAt textDocument i,
                           endPos = positionAt textDocument (i + 42) \<rparr> \<and>
          content e = take 42 (drop i (getText textDocument))"
    unfolding findPossibleEthereumAddresses_all_matches by auto
qed

lemma keyOne_scan:
  "findPossiblePrivateKeys (oneLine (''key '' @ keyOne)) =
     [\<lparr> loc_range = span 4 68, content = ''0x'' @ keyOne \<rparr>]"
  by code_simp

lemma address_scan:
  "findPossibleEthereumAddresses (oneLine (''addr: '' @ vitalikLower)) =
     [\<lparr> loc_range = span 6 48, content = vitalikLower \<rparr>]"
  by code_simp

theorem findPossiblePrivateKeys_content_witness:
  "findPossiblePrivateKeys (oneLine (''key '' @ keyOne)) =
     [\<lparr> loc_range = span 4 68, content = ''0x'' @ keyOne \<rparr>] \<and>
   take 64 (drop 4 (getText (oneLine (''key '' @ keyOne)))) = keyOne \<and>
   ''0x'' @ keyOne \<noteq> keyOne \<and>
   findPossibleEthereumAddresses (oneLine (''addr: '' @ vitalikLower)) =
     [\<lparr> loc_range = span 6 48, content = vitalikLower \<rparr>] \<and>
   take 42 (drop 6 (getText (oneLine (''addr: '' @ vitalikLower)))) = vitalikLower"
  using findPossiblePrivateKeys_content[of "oneLine (''key '' @ keyOne)"]
    findPossiblePrivateKeys_content[of "oneLine (''addr: '' @ vitalikLower)"]
  by (simp only: keyOne_scan address_scan) (simp add: oneLine_def keyOne_def vitalikLower_def)

section \<open>Code lenses: the claim\<close>

lemma foldl_snoc_map: "foldl (\<lambda>acc x. acc @ [f x]) acc xs = acc @ map f xs"
  by (induction xs arbitrary: acc) simp_all

lemma pushEthereumAddressCodeLenses_lensesFor:
  "pushEthereumAddressCodeLenses codeLensType rng c codeLenses =
     codeLenses @ lensesFor codeLensType rng c"
  by (simp only: pushEthereumAddressCodeLenses_def lensesFor_def foldl_snoc_map)

lemma addressLenses_concat:
  "addressLenses L es acc =
     acc @ concat (map (\<lambda>e. lensesFor CODE_LENS_TYPE_ETH_ADDRESS (loc_range e) (content e))
                    (filter (\<lambda>e. isValidEthereumAddress L (content e)) es))"
  by (induction es arbitrary: acc) (simp_all add: pushEthereumAddressCodeLenses_lensesFor)

lemma privateKeyLenses_concat:
  assumes "\<forall>e \<in> set es. isPrivateKey L (content e) = Inr True
             \<longrightarrow> (\<exists>a. toPublicKey L (content e) = Inr a)"
  shows "privateKeyLenses L es acc =
     Inr (acc @ concat (map (\<lambda>e. lensesFor CODE_LENS_TYPE_ETH_PRIVATE_KEY (loc_range e)
                                    (projr (toPublicKey L (content e))))
                         (filter (\<lambda>e. isPrivateKey L (content e) = Inr True) es)))"
  using assms
proof (induction es arbitrary: acc)
  case Nil
  show ?case by simp
next
  case (Cons e es)
  obtain b where b: "isPrivateKey L (content e) = Inr b"
    by (cases "isPrivateKey L (content e)") (auto simp: isPrivateKey_def split: sum.splits)
  from Cons.prems have rest: "\<forall>e \<in> set es. isPrivateKey L (content e) = Inr True
             \<longrightarrow> (\<exists>a. toPublicKey L (content e) = Inr a)" by simp
  show ?case
  proof (cases b)
    case True
    with b Cons.prems obtain a where a: "toPublicKey L (content e) = Inr a" by auto
    with b True show ?thesis
      by (simp add: Cons.IH[OF rest] pushEthereumAddressCodeLenses_lensesFor)
  next
    case False
    with b show ?thesis by (simp add: Cons.IH[OF rest])
  qed
qed

lemma lensesFor_five:
  "lensesFor codeLensType rng c =
     [\<lparr> lens_range = rng, lens_command = None, lens_data = [codeLensType, ''mainnet'', c] \<rparr>,
      \<lparr> lens_range = rng, lens_command = None, lens_data = [codeLensType, ''ropsten'', c] \<rparr>,
      \<lparr> lens_range = rng, lens_command = None, lens_data = [codeLensType, ''kovan'', c] \<rparr>,
      \<lparr> lens_range = rng, lens_command = None, lens_data = [codeLensType, ''rinkeby'', c] \<rparr>,
      \<lparr> lens_range = rng, lens_command = None, lens_data = [codeLensType, ''goerli'', c] \<rparr>]"
  by (simp add: lensesFor_def NETWORKS_def)

text \<open>
  Claim C8: for an open document, if deriving the address succeeds for every scanned
  private-key span that \<^verbatim>\<open>isPrivateKey\<close> accepts, \<^verbatim>\<open>onCodeLens\<close> returns, in scan
  order, the lenses of every address span that \<^verbatim>\<open>isValidEthereumAddress\<close> accepts,
  followed by the lenses of every accepted private-key span with the derived address
  as content; the lenses of a span are exactly five, one per network in the order
  mainnet, ropsten, kovan, rinkeby, goerli, each with the span's range and no command
  yet. The handler calls no remote service.
\<close>

theorem onCodeLens_five_per_span:
  assumes "documents u = Some textDocument"
    and "\<forall>e \<in> set (findPossiblePrivateKeys textDocument).
           isPrivateKey L (content e) = Inr True \<longrightarrow> (\<exists>a. toPublicKey L (content e) = Inr a)"
  shows "onCodeLens L documents u =
           Inr (concat (map (\<lambda>e. lensesFor CODE_LENS_TYPE_ETH_ADDRESS (loc_range e) (content e))
                          (filter (\<lambda>e. isValidEthereumAddress L (content e))
                             (findPossibleEthereumAddresses textDocument))) @
                concat (map (\<lambda>e. lensesFor CODE_LENS_TYPE_ETH_PRIVATE_KEY (loc_range e)
                                     (projr (toPublicKey L (content e))))
                          (filter (\<lambda>e. isPrivateKey L (content e) = Inr True)
                             (findPossiblePrivateKeys textDocument)))) \<and>
         (\<forall>codeLensType rng c.
            lensesFor codeLensType rng c =
              [\<lparr> lens_range = rng, lens_command = None, lens_data = [codeLensType, ''mainnet'', c] \<rparr>,
               \<lparr> lens_range = rng, lens_command = None, lens_data = [codeLensType, ''ropsten'', c] \<rparr>,
               \<lparr> lens_range = rng, lens_command = None, lens_data = [codeLensType, ''kovan'', c] \<rparr>,
               \<lparr> lens_range = rng, lens_command = None, lens_data = [codeLensType, ''rinkeby'', c] \<rparr>,
               \<lparr> lens_range = rng, lens_command = None, lens_data = [codeLensType, ''goerli'', c] \<rparr>])"
proof (intro conjI allI)
  show "onCodeLens L documents u =
           Inr (concat (map (\<lambda>e. lensesFor CODE_LENS_TYPE_ETH_ADDRESS (loc_range e) (content e))
                          (filter (\<lambda>e. isValidEthereumAddress L (content e))
                             (findPossibleEthereumAddresses textDocument))) @
                concat (map (\<lambda>e. lensesFor CODE_LENS_TYPE_ETH_PRIVATE_KEY (loc_range e)
                                     (projr (toPublicKey L (content e))))
                          (filter (\<lambda>e. isPrivateKey L (content e) = Inr True)
                             (findPossiblePrivateKeys textDocument))))"
    using assms(1)
    by (simp add: onCodeLens_def privateKeyLenses_concat[OF assms(2)] addressLenses_concat)
next
  fix codeLensType rng c
  show "lensesFor codeLensType rng c =
              [\<lparr> lens_range = rng, lens_command = None, lens_data = [codeLensType, ''mainnet'', c] \<rparr>,
               \<lparr> lens_range = rng, lens_command = None, lens_data = [codeLensType, ''ropsten'', c] \<rparr>,
               \<lparr> lens_range = rng, lens_command = None, lens_data = [codeLensType, ''kovan'', c] \<rparr>,
               \<lparr> lens_range = rng, lens_command = None, lens_data = [codeLensType, ''rinkeby'', c] \<rparr>,
               \<lparr> lens_range = rng, lens_command = None, lens_data = [codeLensType, ''goerli'', c] \<rparr>]"
    by (rule lensesFor_five)
qed

lemma lensDocument_addresses:
  "findPossibleEthereumAddresses lensDocument = [\<lparr> loc_range = span 0 42, content = vitalikLower \<rparr>]"
  by code_simp

lemma lensDocument_keys:
  "findPossiblePrivateKeys lensDocument = [\<lparr> loc_range = span 43 107, content = ''0x'' @ keyOne \<rparr>]"
  by code_simp

theorem onCodeLens_five_per_span_witness:
  "onCodeLens (stubLibraries rejectingENS) [''file:///a.txt'' \<mapsto> lensDocument] ''file:///a.txt'' =
     Inr (lensesFor CODE_LENS_TYPE_ETH_ADDRESS (span 0 42) vitalikLower @
          lensesFor CODE_LENS_TYPE_ETH_PRIVATE_KEY (span 43 107) keyOneAddress) \<and>
   length (lensesFor CODE_LENS_TYPE_ETH_ADDRESS (span 0 42) vitalikLower @
           lensesFor CODE_LENS_TYPE_ETH_PRIVATE_KEY (span 43 107) keyOneAddress) = 10"
proof -
  let ?L = "stubLibraries rejectingENS"
  have doc: "[''file:///a.txt'' \<mapsto> lensDocument] ''file:///a.txt'' = Some lensDocument" by simp
  have key: "isPrivateKey ?L (''0x'' @ keyOne) = Inr True"
    "toPublicKey ?L (''0x'' @ keyOne) = Inr keyOneAddress"
    by (simp_all add: isPrivateKey_def toPublicKey_def stubLibraries_def)
  have valid: "isValidEthereumAddress ?L vitalikLower"
    by (simp add: isValidEthereumAddress_def stubLibraries_def)
  have derive: "\<forall>e \<in> set (findPossiblePrivateKeys lensDocument).
           isPrivateKey ?L (content e) = Inr True \<longrightarrow> (\<exists>a. toPublicKey ?L (content e) = Inr a)"
    unfolding lensDocument_keys using key by simp
  from onCodeLens_five_per_span[of "[''file:///a.txt'' \<mapsto> lensDocument]" "''file:///a.txt''"
         lensDocument ?L, OF doc derive] show ?thesis
    unfolding lensDocument_addresses lensDocument_keys
    by (simp add: key[simplified] valid)
qed

section \<open>The validation pass: what a completed pass publishes\<close>

lemma real_less_iff_ceiling: "real p < c \<longleftrightarrow> p < nat \<lceil>c\<rceil>"
proof -
  have "real p < c \<longleftrightarrow> int p < \<lceil>c\<rceil>" by (simp add: less_ceiling_iff)
  also have "\<dots> \<longleftrightarrow> p < nat \<lceil>c\<rceil>" by (simp add: zless_nat_eq_int_zless)
  finally show ?thesis .
qed

lemma validateLoop_Cons_examined:
  assumes "real problems < maxNumberOfProblems settings"
  shows "validateLoop L sv settings textDocument (element # rest) problems ds =
     (if \<not> isValidEthereumAddress L (content element) then
        validateLoop L sv settings textDocument rest (Suc problems)
          (ds @ elementDiagnostics L sv textDocument element)
      else
        (case toChecksumAddress L (content element) of
           Inl x \<Rightarrow> Inl x
         | Inr c \<Rightarrow>
             (case reverseENSLookup L sv (content element) of
                Inl x \<Rightarrow> Inl x
              | Inr n \<Rightarrow>
                  validateLoop L sv settings textDocument rest (Suc problems)
                    (ds @ elementDiagnostics L sv textDocument element))))"
  using assms
  by (simp add: elementDiagnostics_def addDiagnostic_def errorDiagnostic_def
        warningDiagnostic_def hintDiagnostic_def Let_def split: sum.splits)

lemma validateLoop_Cons_skipped:
  assumes "\<not> real problems < maxNumberOfProblems settings"
  shows "validateLoop L sv settings textDocument (element # rest) problems ds =
           validateLoop L sv settings textDocument rest problems ds"
  using assms by simp

lemma validateLoop_take:
  "validateLoop L sv settings textDocument cands problems ds =
   validateLoop L sv settings textDocument
     (take (nat \<lceil>maxNumberOfProblems settings\<rceil> - problems) cands) problems ds"
proof (induction cands arbitrary: problems ds)
  case Nil
  show ?case by simp
next
  case (Cons element rest)
  show ?case
  proof (cases "real problems < maxNumberOfProblems settings")
    case True
    then have "problems < nat \<lceil>maxNumberOfProblems settings\<rceil>"
      using real_less_iff_ceiling[of problems "maxNumberOfProblems settings"] by blast
    then have k: "nat \<lceil>maxNumberOfProblems settings\<rceil> - problems =
                    Suc (nat \<lceil>maxNumberOfProblems settings\<rceil> - Suc problems)"
      by arith
    show ?thesis
      unfolding k take_Suc_Cons validateLoop_Cons_examined[OF True]
      using Cons.IH[of "Suc problems"]
      by (simp split: sum.splits)
  next
    case False
    then have "\<not> problems < nat \<lceil>maxNumberOfProblems settings\<rceil>"
      using real_less_iff_ceiling[of problems "maxNumberOfProblems settings"] by blast
    then have z: "nat \<lceil>maxNumberOfProblems settings\<rceil> - problems = 0" by arith
    have "validateLoop L sv settings textDocument rest problems ds = Inr ds"
      using Cons.IH[of problems ds] unfolding z by simp
    then show ?thesis unfolding z validateLoop_Cons_skipped[OF False] by simp
  qed
qed

lemma validateLoop_Inr:
  assumes "validateLoop L sv settings textDocument cands problems ds = Inr out"
  shows "out = ds @ concat (map (elementDiagnostics L sv textDocument)
                             (take (nat \<lceil>maxNumberOfProblems settings\<rceil> - problems) cands))"
  using assms
proof (induction cands arbitrary: problems ds)
  case Nil
  then show ?case by simp
next
  case (Cons element rest)
  show ?case
  proof (cases "real problems < maxNumberOfProblems settings")
    case True
    then have "problems < nat \<lceil>maxNumberOfProblems settings\<rceil>"
      using real_less_iff_ceiling[of problems "maxNumberOfProblems settings"] by blast
    then have k: "nat \<lceil>maxNumberOfProblems settings\<rceil> - problems =
                    Suc (nat \<lceil>maxNumberOfProblems settings\<rceil> - Suc problems)"
      by arith
    from Cons.prems have
      "validateLoop L sv settings textDocument rest (Suc problems)
         (ds @ elementDiagnostics L sv textDocument element) = Inr out"
      unfolding validateLoop_Cons_examined[OF True]
      by (simp split: if_splits sum.splits)
    from Cons.IH[OF this] show ?thesis unfolding k by simp
  next
    case False
    then have "\<not> problems < nat \<lceil>maxNumberOfProblems settings\<rceil>"
      using real_less_iff_ceiling[of problems "maxNumberOfProblems settings"] by blast
    then have z: "nat \<lceil>maxNumberOfProblems settings\<rceil> - problems = 0" by arith
    from Cons.prems have "validateLoop L sv settings textDocument rest problems ds = Inr out"
      unfolding validateLoop_Cons_skipped[OF False] .
    from Cons.IH[OF this] show ?thesis unfolding z by simp
  qed
qed

lemma sent_setupClients: "sent (setupClients L settings sv) = sent sv"
  by (simp add: setupClients_def Let_def)

lemma capability_setupClients:
  "hasDiagnosticRelatedInformationCapability (setupClients L settings sv) =
     hasDiagnosticRelatedInformationCapability sv"
  by (simp add: setupClients_def Let_def)

lemma validateTextDocument_Inr:
  assumes "validateTextDocument L settings sv textDocument = Inr sv'"
  shows "sent sv' = sent sv @
           [(uri textDocument,
             concat (map (elementDiagnostics L (setupClients L settings sv) textDocument)
                       (take (nat \<lceil>maxNumberOfProblems settings\<rceil>)
                          (findPossibleEthereumAddresses textDocument))))]"
proof -
  let ?sv = "setupClients L settings sv"
  from assms obtain out where
    loop: "validateLoop L ?sv settings textDocument (findPossibleEthereumAddresses textDocument) 0 []
             = Inr out"
    and sv': "sv' = ?sv\<lparr> sent := sent ?sv @ [(uri textDocument, out)] \<rparr>"
    by (auto simp: validateTextDocument_def Let_def split: sum.splits)
  from validateLoop_Inr[OF loop] sv' show ?thesis by (simp add: sent_setupClients)
qed

lemma length_elementDiagnostics: "length (elementDiagnostics L sv textDocument element) \<le> 2"
  by (simp add: elementDiagnostics_def split: sum.splits)

lemma length_concat_le:
  assumes "\<And>x. length (f x) \<le> n"
  shows "length (concat (map f xs)) \<le> n * length xs"
proof (induction xs)
  case Nil
  show ?case by simp
next
  case (Cons x xs)
  from assms[of x] Cons show ?case by simp
qed

lemma range_elementDiagnostics:
  "d \<in> set (elementDiagnostics L sv textDocument element) \<Longrightarrow> diag_range d = loc_range element"
  by (auto simp: elementDiagnostics_def errorDiagnostic_def warningDiagnostic_def
        hintDiagnostic_def split: if_splits sum.splits)

lemma filter_concat_by_key:
  assumes "distinct (map r xs)" and "e \<in> set xs"
    and "\<And>x d. d \<in> set (f x) \<Longrightarrow> g d = r x"
  shows "filter (\<lambda>d. Q d \<and> g d = r e) (concat (map f xs)) = filter Q (f e)"
  using assms(1,2)
proof (induction xs)
  case Nil
  then show ?case by simp
next
  case (Cons x xs)
  show ?case
  proof (cases "x = e")
    case True
    with Cons.prems have "r e \<notin> r ` set xs" by simp
    then have "\<And>y d. y \<in> set xs \<Longrightarrow> d \<in> set (f y) \<Longrightarrow> g d \<noteq> r e"
      using assms(3) by (metis imageI)
    then have "filter (\<lambda>d. Q d \<and> g d = r e) (concat (map f xs)) = []"
      by (auto simp: filter_empty_conv)
    moreover have "filter (\<lambda>d. Q d \<and> g d = r e) (f e) = filter Q (f e)"
      by (rule filter_cong) (use assms(3) in auto)
    ultimately show ?thesis using True by simp
  next
    case False
    with Cons.prems have e: "e \<in> set xs" and d: "distinct (map r xs)" and "r x \<noteq> r e"
      by auto
    then have "filter (\<lambda>d. Q d \<and> g d = r e) (f x) = []"
      using assms(3) by (auto simp: filter_empty_conv)
    with Cons.IH[OF d e] show ?thesis by simp
  qed
qed

lemma distinct_ranges:
  assumes "inj_on (positionAt textDocument) {..length (getText textDocument)}"
  shows "distinct (map loc_range (findPossibleEthereumAddresses textDocument))"
proof -
  let ?n = "length (getText textDocument)"
  let ?xs = "filter (matchAt AddressPattern (getText textDocument)) [0..<Suc ?n]"
  let ?f = "\<lambda>i. \<lparr> start = positionAt textDocument i, endPos = positionAt textDocument (i + 42) \<rparr>"
  have m: "map loc_range (findPossibleEthereumAddresses textDocument) = map ?f ?xs"
    unfolding findPossibleEthereumAddresses_all_matches by (simp add: comp_def del: upt_Suc)
  have "set ?xs \<subseteq> {..?n}" by auto
  then have "inj_on (positionAt textDocument) (set ?xs)"
    using assms by (rule inj_on_subset[rotated])
  then have "inj_on ?f (set ?xs)" by (auto simp: inj_on_def)
  moreover have "distinct ?xs" by (simp del: upt_Suc)
  ultimately show ?thesis unfolding m by (simp only: distinct_map)
qed

section \<open>The validation pass: the claims\<close>

lemma scan_one:
  "findPossibleEthereumAddresses (oneLine vitalikLower) =
     [\<lparr> loc_range = span 0 42, content = vitalikLower \<rparr>]"
  by code_simp

lemma scan_two:
  "findPossibleEthereumAddresses twoAddresses =
     [\<lparr> loc_range = span 0 42, content = vitalikLower \<rparr>,
      \<lparr> loc_range = span 43 85, content = daiLower \<rparr>]"
  by code_simp

lemma stub_facts:
  "isValidEthereumAddress (stubLibraries e) vitalikLower"
  "isValidEthereumAddress (stubLibraries e) daiLower"
  "toChecksumAddress (stubLibraries e) vitalikLower = Inr vitalikChecksum"
  "toChecksumAddress (stubLibraries e) daiLower = Inr daiChecksum"
  "vitalikLower \<noteq> vitalikChecksum" "daiLower \<noteq> daiChecksum" "daiLower \<noteq> vitalikLower"
  by (simp_all add: isValidEthereumAddress_def stubLibraries_def vitalikLower_def
        vitalikChecksum_def daiLower_def daiChecksum_def)

lemma reverse_facts:
  "reverseENSLookup (stubLibraries e) freshServer a = Inl undefinedEns"
  "reverseENSLookup (stubLibraries e) (serverWith rejectingENS) a = Inr []"
  "reverseENSLookup (stubLibraries e)
     (freshServer\<lparr> web3provider := Some p, ens := Some consistentENS \<rparr>) vitalikLower
     = Inr ''vitalik.eth''"
  by (simp_all add: reverseENSLookup_def ENSLookup_def freshServer_def serverWith_def
        rejectingENS_def consistentENS_def stubLibraries_def zeroAddress_def
        vitalikLower_def vitalikChecksum_def)

lemma fresh_facts:
  "hasDiagnosticRelatedInformationCapability freshServer = False"
  "hasDiagnosticRelatedInformationCapability (serverWith e) = False"
  "hasDiagnosticRelatedInformationCapability
     (freshServer\<lparr> web3provider := Some p, ens := Some e \<rparr>) = False"
  "sent freshServer = []" "sent (serverWith e) = []"
  "sent (freshServer\<lparr> web3provider := Some p, ens := Some e \<rparr>) = []"
  by (simp_all add: freshServer_def serverWith_def)

text \<open>
  Claim C1, on the code: with no project id in the settings and no client left by an
  earlier pass, \<^verbatim>\<open>ens\<close> is undefined; the reverse lookup of the first valid
  address throws, and the pass is rejected before \<^verbatim>\<open>sendDiagnostics\<close>. The
  checksum warning of the address is never published.
\<close>

theorem validateTextDocument_aborts_without_client:
  "validateTextDocument (stubLibraries consistentENS) (settingsWithout 100) freshServer
     (oneLine vitalikLower) = Inl undefinedEns"
proof -
  have s: "setupClients (stubLibraries consistentENS) (settingsWithout 100) freshServer = freshServer"
    by (simp add: setupClients_def settingsWithout_def)
  show ?thesis
    unfolding validateTextDocument_def Let_def s scan_one
    by (simp add: stub_facts reverse_facts settingsWithout_def)
qed

text \<open>
  Claim C2 as stated fails: with the limit 1, one lower-case address that has a
  confirmed name yields a warning and a hint, two diagnostics.
\<close>

theorem two_diagnostics_with_limit_one:
  "publishedSummary
     (validateTextDocument (stubLibraries consistentENS) (settingsWith 1) freshServer
        (oneLine vitalikLower)) =
     Inr [(''file:///a.txt'',
           [(Warning, span 0 42, CodeString (''NotChecksumAddress'' @ vitalikChecksum)),
            (Hint, span 0 42, CodeString ''ConvertENSNamevitalik.eth'')])] \<and>
   maxNumberOfProblems (settingsWith 1) = 1"
proof -
  have s: "setupClients (stubLibraries consistentENS) (settingsWith 1) freshServer =
             freshServer\<lparr> web3provider := Some ''https://:secret@mainnet.infura.io/v3/id'',
                          ens := Some consistentENS \<rparr>"
    by (simp add: setupClients_def settingsWith_def stubLibraries_def)
  show ?thesis
    unfolding validateTextDocument_def Let_def s scan_one publishedSummary_def
    by (simp add: stub_facts reverse_facts fresh_facts settingsWith_def addDiagnostic_def
          oneLine_def DIAGNOSTIC_TYPE_NOT_CHECKSUM_ADDRESS_def DIAGNOSTIC_TYPE_CONVERT_ENS_NAME_def)
qed

text \<open>
  Claim C2, amended: a pass that completes publishes exactly the diagnostics of the
  first \<open>\<lceil>maxNumberOfProblems\<rceil>\<close> scanned candidates, in scan order, at most two for
  each (an error, or a warning and a hint): the limit counts the candidates examined.
  The loop never examines a candidate past the limit: run on all candidates it does
  what it does on the first \<open>\<lceil>maxNumberOfProblems\<rceil>\<close> alone.
\<close>

theorem validateTextDocument_limit:
  assumes "validateTextDocument L settings sv textDocument = Inr sv'"
  shows "sent sv' = sent sv @
           [(uri textDocument,
             concat (map (elementDiagnostics L (setupClients L settings sv) textDocument)
                       (take (nat \<lceil>maxNumberOfProblems settings\<rceil>)
                          (findPossibleEthereumAddresses textDocument))))] \<and>
         length (concat (map (elementDiagnostics L (setupClients L settings sv) textDocument)
                       (take (nat \<lceil>maxNumberOfProblems settings\<rceil>)
                          (findPossibleEthereumAddresses textDocument))))
           \<le> 2 * min (nat \<lceil>maxNumberOfProblems settings\<rceil>)
                     (length (findPossibleEthereumAddresses textDocument)) \<and>
         validateLoop L (setupClients L settings sv) settings textDocument
             (findPossibleEthereumAddresses textDocument) 0 [] =
           validateLoop L (setupClients L settings sv) settings textDocument
             (take (nat \<lceil>maxNumberOfProblems settings\<rceil>)
                (findPossibleEthereumAddresses textDocument)) 0 []"
proof (intro conjI)
  show "sent sv' = sent sv @
           [(uri textDocument,
             concat (map (elementDiagnostics L (setupClients L settings sv) textDocument)
                       (take (nat \<lceil>maxNumberOfProblems settings\<rceil>)
                          (findPossibleEthereumAddresses textDocument))))]"
    by (rule validateTextDocument_Inr[OF assms])
next
  have "length (concat (map (elementDiagnostics L (setupClients L settings sv) textDocument)
                       (take (nat \<lceil>maxNumberOfProblems settings\<rceil>)
                          (findPossibleEthereumAddresses textDocument))))
          \<le> 2 * length (take (nat \<lceil>maxNumberOfProblems settings\<rceil>)
                          (findPossibleEthereumAddresses textDocument))"
    by (rule length_concat_le) (rule length_elementDiagnostics)
  then show "length (concat (map (elementDiagnostics L (setupClients L settings sv) textDocument)
                       (take (nat \<lceil>maxNumberOfProblems settings\<rceil>)
                          (findPossibleEthereumAddresses textDocument))))
           \<le> 2 * min (nat \<lceil>maxNumberOfProblems settings\<rceil>)
                     (length (findPossibleEthereumAddresses textDocument))"
    by (simp add: min.commute)
next
  show "validateLoop L (setupClients L settings sv) settings textDocument
             (findPossibleEthereumAddresses textDocument) 0 [] =
           validateLoop L (setupClients L settings sv) settings textDocument
             (take (nat \<lceil>maxNumberOfProblems settings\<rceil>)
                (findPossibleEthereumAddresses textDocument)) 0 []"
    using validateLoop_take[of L "setupClients L settings sv" settings textDocument
            "findPossibleEthereumAddresses textDocument" 0 "[]"]
    by simp
qed

lemma scan_two_candidates:
  "findPossibleEthereumAddresses twoAddresses = [firstCandidate, secondCandidate]"
  by (simp add: scan_two firstCandidate_def secondCandidate_def)

lemma candidate_facts:
  "content firstCandidate = vitalikLower" "content secondCandidate = daiLower"
  "loc_range firstCandidate = span 0 42" "loc_range secondCandidate = span 43 85"
  by (simp_all add: firstCandidate_def secondCandidate_def)

lemma setup_named:
  "setupClients (stubLibraries consistentENS) (settingsWith cap) freshServer = namedServer"
  by (simp add: setupClients_def settingsWith_def stubLibraries_def namedServer_def)

lemma setup_rejecting:
  "setupClients (stubLibraries rejectingENS) (settingsWithout cap) (serverWith rejectingENS)
     = serverWith rejectingENS"
  by (simp add: setupClients_def settingsWithout_def)

lemma named_facts:
  "hasDiagnosticRelatedInformationCapability namedServer = False"
  "sent namedServer = []"
  "reverseENSLookup (stubLibraries e) namedServer vitalikLower = Inr ''vitalik.eth''"
  unfolding namedServer_def by (simp_all add: fresh_facts reverse_facts)

lemma limited_pass:
  "validateTextDocument (stubLibraries consistentENS) (settingsWith 1) freshServer twoAddresses =
     Inr (namedServer\<lparr> sent :=
            [(uri twoAddresses,
              [warningDiagnostic namedServer twoAddresses firstCandidate vitalikChecksum,
               hintDiagnostic namedServer twoAddresses firstCandidate ''vitalik.eth''])] \<rparr>)"
  unfolding validateTextDocument_def Let_def setup_named scan_two_candidates
  by (simp add: stub_facts named_facts candidate_facts settingsWith_def addDiagnostic_def
        warningDiagnostic_def hintDiagnostic_def)

theorem validateTextDocument_limit_witness:
  "validateTextDocument (stubLibraries consistentENS) (settingsWith 1) freshServer twoAddresses =
     Inr (namedServer\<lparr> sent :=
            [(uri twoAddresses,
              [warningDiagnostic namedServer twoAddresses firstCandidate vitalikChecksum,
               hintDiagnostic namedServer twoAddresses firstCandidate ''vitalik.eth''])] \<rparr>) \<and>
   take (nat \<lceil>maxNumberOfProblems (settingsWith 1)\<rceil>) (findPossibleEthereumAddresses twoAddresses)
     = [firstCandidate] \<and>
   elementDiagnostics (stubLibraries consistentENS) namedServer twoAddresses firstCandidate =
     [warningDiagnostic namedServer twoAddresses firstCandidate vitalikChecksum,
      hintDiagnostic namedServer twoAddresses firstCandidate ''vitalik.eth''] \<and>
   length [warningDiagnostic namedServer twoAddresses firstCandidate vitalikChecksum,
           hintDiagnostic namedServer twoAddresses firstCandidate ''vitalik.eth'']
     \<le> 2 * min (nat \<lceil>maxNumberOfProblems (settingsWith 1)\<rceil>)
               (length (findPossibleEthereumAddresses twoAddresses))"
proof -
  have t: "take (nat \<lceil>maxNumberOfProblems (settingsWith 1)\<rceil>)
             (findPossibleEthereumAddresses twoAddresses) = [firstCandidate]"
    by (simp add: scan_two_candidates settingsWith_def)
  have e: "elementDiagnostics (stubLibraries consistentENS) namedServer twoAddresses firstCandidate =
     [warningDiagnostic namedServer twoAddresses firstCandidate vitalikChecksum,
      hintDiagnostic namedServer twoAddresses firstCandidate ''vitalik.eth'']"
    by (simp add: elementDiagnostics_def stub_facts named_facts candidate_facts)
  from validateTextDocument_limit[OF limited_pass] limited_pass t e show ?thesis
    by (simp add: setup_named)
qed

text \<open>
  Claim C6 as stated fails: with the limit 1 and two lower-case addresses in the text,
  the second is scanned, is valid and differs from its checksum form, and the pass
  publishes a warning for the first span only.
\<close>

theorem later_candidate_gets_no_warning:
  "findPossibleEthereumAddresses twoAddresses =
     [\<lparr> loc_range = span 0 42, content = vitalikLower \<rparr>,
      \<lparr> loc_range = span 43 85, content = daiLower \<rparr>] \<and>
   isValidEthereumAddress (stubLibraries rejectingENS) daiLower \<and>
   toChecksumAddress (stubLibraries rejectingENS) daiLower = Inr daiChecksum \<and>
   daiLower \<noteq> daiChecksum \<and>
   maxNumberOfProblems (settingsWithout 1) = 1 \<and>
   publishedSummary
     (validateTextDocument (stubLibraries rejectingENS) (settingsWithout 1)
        (serverWith rejectingENS) twoAddresses) =
     Inr [(''file:///a.txt'',
           [(Warning, span 0 42, CodeString (''NotChecksumAddress'' @ vitalikChecksum))])]"
proof -
  have "publishedSummary
     (validateTextDocument (stubLibraries rejectingENS) (settingsWithout 1)
        (serverWith rejectingENS) twoAddresses) =
     Inr [(''file:///a.txt'',
           [(Warning, span 0 42, CodeString (''NotChecksumAddress'' @ vitalikChecksum))])]"
    unfolding validateTextDocument_def Let_def setup_rejecting scan_two publishedSummary_def
    by (simp add: stub_facts reverse_facts fresh_facts settingsWithout_def addDiagnostic_def
          twoAddresses_def oneLine_def DIAGNOSTIC_TYPE_NOT_CHECKSUM_ADDRESS_def)
  then show ?thesis
    by (simp add: scan_two stub_facts settingsWithout_def)
qed

text \<open>
  Claim C6, amended: in a pass that completes, for a scanned candidate whose index in
  scan order is below the limit, that is valid and differs from its checksum form
  \<open>c\<close>, the published diagnostics hold exactly one warning with the candidate's range
  (the document's offset table giving different offsets different positions); its code
  is the prefix \<^verbatim>\<open>NotChecksumAddress\<close> followed by \<open>c\<close>, so the text after the
  prefix is \<open>c\<close>.
\<close>

theorem checksum_warning_for_examined_candidate:
  assumes "validateTextDocument L settings sv textDocument = Inr sv'"
    and "i < length (findPossibleEthereumAddresses textDocument)"
    and "real i < maxNumberOfProblems settings"
    and "isValidEthereumAddress L (content (findPossibleEthereumAddresses textDocument ! i))"
    and "toChecksumAddress L (content (findPossibleEthereumAddresses textDocument ! i)) = Inr c"
    and "content (findPossibleEthereumAddresses textDocument ! i) \<noteq> c"
    and "inj_on (positionAt textDocument) {..length (getText textDocument)}"
  shows "\<exists>diags w.
           sent sv' = sent sv @ [(uri textDocument, diags)] \<and>
           filter (\<lambda>d. severity d = Warning \<and>
                        diag_range d = loc_range (findPossibleEthereumAddresses textDocument ! i))
             diags = [w] \<and>
           code w = CodeString (DIAGNOSTIC_TYPE_NOT_CHECKSUM_ADDRESS @ c) \<and>
           substring (String (code w)) (length DIAGNOSTIC_TYPE_NOT_CHECKSUM_ADDRESS) = c"
proof -
  let ?cands = "findPossibleEthereumAddresses textDocument"
  let ?sv = "setupClients L settings sv"
  let ?xs = "take (nat \<lceil>maxNumberOfProblems settings\<rceil>) ?cands"
  let ?e = "?cands ! i"
  let ?diags = "concat (map (elementDiagnostics L ?sv textDocument) ?xs)"
  let ?w = "warningDiagnostic ?sv textDocument ?e c"
  from assms(3) have iN: "i < nat \<lceil>maxNumberOfProblems settings\<rceil>"
    using real_less_iff_ceiling[of i "maxNumberOfProblems settings"] by blast
  with assms(2) have "i < length ?xs" and "?xs ! i = ?e" by simp_all
  then have mem: "?e \<in> set ?xs" by (metis nth_mem)
  have "distinct (map loc_range ?cands)" by (rule distinct_ranges[OF assms(7)])
  then have dist: "distinct (map loc_range ?xs)"
    by (simp only: take_map[symmetric] distinct_take)
  have "filter (\<lambda>d. severity d = Warning \<and> diag_range d = loc_range ?e) ?diags =
          filter (\<lambda>d. severity d = Warning) (elementDiagnostics L ?sv textDocument ?e)"
    by (rule filter_concat_by_key[OF dist mem]) (rule range_elementDiagnostics)
  also have "\<dots> = [?w]"
    using assms(4,5,6)
    by (simp add: elementDiagnostics_def warningDiagnostic_def hintDiagnostic_def
          split: sum.splits)
  finally have f: "filter (\<lambda>d. severity d = Warning \<and> diag_range d = loc_range ?e) ?diags = [?w]" .
  have c: "code ?w = CodeString (DIAGNOSTIC_TYPE_NOT_CHECKSUM_ADDRESS @ c)"
    by (simp add: warningDiagnostic_def)
  then have s: "substring (String (code ?w)) (length DIAGNOSTIC_TYPE_NOT_CHECKSUM_ADDRESS) = c"
    by (simp add: substring_def)
  from validateTextDocument_Inr[OF assms(1)] f c s show ?thesis by blast
qed

lemma full_pass:
  "validateTextDocument (stubLibraries rejectingENS) (settingsWithout 2)
     (serverWith rejectingENS) twoAddresses =
     Inr ((serverWith rejectingENS)\<lparr> sent :=
            [(uri twoAddresses,
              [warningDiagnostic (serverWith rejectingENS) twoAddresses firstCandidate vitalikChecksum,
               warningDiagnostic (serverWith rejectingENS) twoAddresses secondCandidate daiChecksum])] \<rparr>)"
  unfolding validateTextDocument_def Let_def setup_rejecting scan_two_candidates
  by (simp add: stub_facts reverse_facts fresh_facts candidate_facts settingsWithout_def
        addDiagnostic_def warningDiagnostic_def)

theorem checksum_warning_for_examined_candidate_witness:
  "validateTextDocument (stubLibraries rejectingENS) (settingsWithout 2)
     (serverWith rejectingENS) twoAddresses =
     Inr ((serverWith rejectingENS)\<lparr> sent :=
            [(uri twoAddresses,
              [warningDiagnostic (serverWith rejectingENS) twoAddresses firstCandidate vitalikChecksum,
               warningDiagnostic (serverWith rejectingENS) twoAddresses secondCandidate daiChecksum])] \<rparr>) \<and>
   findPossibleEthereumAddresses twoAddresses ! 1 = secondCandidate \<and>
   real 1 < maxNumberOfProblems (settingsWithout 2) \<and>
   isValidEthereumAddress (stubLibraries rejectingENS) (content secondCandidate) \<and>
   toChecksumAddress (stubLibraries rejectingENS) (content secondCandidate) = Inr daiChecksum \<and>
   content secondCandidate \<noteq> daiChecksum \<and>
   inj_on (positionAt twoAddresses) {..length (getText twoAddresses)} \<and>
   filter (\<lambda>d. severity d = Warning \<and> diag_range d = loc_range secondCandidate)
     [warningDiagnostic (serverWith rejectingENS) twoAddresses firstCandidate vitalikChecksum,
      warningDiagnostic (serverWith rejectingENS) twoAddresses secondCandidate daiChecksum]
     = [warningDiagnostic (serverWith rejectingENS) twoAddresses secondCandidate daiChecksum] \<and>
   substring (String (code (warningDiagnostic (serverWith rejectingENS) twoAddresses
                              secondCandidate daiChecksum)))
     (length DIAGNOSTIC_TYPE_NOT_CHECKSUM_ADDRESS) = daiChecksum"
proof -
  let ?L = "stubLibraries rejectingENS"
  have nth: "findPossibleEthereumAddresses twoAddresses ! 1 = secondCandidate"
    by (simp add: scan_two_candidates)
  have h2: "1 < length (findPossibleEthereumAddresses twoAddresses)"
    by (simp add: scan_two_candidates)
  have h3: "real 1 < maxNumberOfProblems (settingsWithout 2)" by (simp add: settingsWithout_def)
  have h4: "isValidEthereumAddress ?L (content (findPossibleEthereumAddresses twoAddresses ! 1))"
    unfolding nth by (simp add: candidate_facts stub_facts)
  have h5: "toChecksumAddress ?L (content (findPossibleEthereumAddresses twoAddresses ! 1))
              = Inr daiChecksum"
    unfolding nth by (simp add: candidate_facts stub_facts)
  have h6: "content (findPossibleEthereumAddresses twoAddresses ! 1) \<noteq> daiChecksum"
    unfolding nth by (simp add: candidate_facts stub_facts)
  have h7: "inj_on (positionAt twoAddresses) {..length (getText twoAddresses)}"
    by (simp add: twoAddresses_def oneLine_def inj_on_def)
  from checksum_warning_for_examined_candidate[OF full_pass h2 h3 h4 h5 h6 h7]
  obtain diags w where
    d: "sent ((serverWith rejectingENS)\<lparr> sent :=
            [(uri twoAddresses,
              [warningDiagnostic (serverWith rejectingENS) twoAddresses firstCandidate vitalikChecksum,
               warningDiagnostic (serverWith rejectingENS) twoAddresses secondCandidate daiChecksum])] \<rparr>)
          = sent (serverWith rejectingENS) @ [(uri twoAddresses, diags)]"
    and f: "filter (\<lambda>d. severity d = Warning \<and>
                        diag_range d = loc_range (findPossibleEthereumAddresses twoAddresses ! 1))
             diags = [w]"
    and c: "code w = CodeString (DIAGNOSTIC_TYPE_NOT_CHECKSUM_ADDRESS @ daiChecksum)"
    and s: "substring (String (code w)) (length DIAGNOSTIC_TYPE_NOT_CHECKSUM_ADDRESS) = daiChecksum"
    by blast
  from d have diags: "diags =
      [warningDiagnostic (serverWith rejectingENS) twoAddresses firstCandidate vitalikChecksum,
       warningDiagnostic (serverWith rejectingENS) twoAddresses secondCandidate daiChecksum]"
    by (simp add: fresh_facts)
  have ne: "span 0 42 \<noteq> span 43 85" by (simp add: span_def)
  have w: "w = warningDiagnostic (serverWith rejectingENS) twoAddresses secondCandidate daiChecksum"
    using f ne unfolding diags nth
    by (simp add: warningDiagnostic_def candidate_facts)
  show ?thesis
    using full_pass nth h3 h4 h5 h6 h7 f s unfolding diags nth w by simp
qed

section \<open>A pass with a naming client in place completes\<close>

lemma reverseENSLookup_returns:
  assumes "ens sv = Some e" and "\<forall>a x. reverse_name e a \<noteq> Throws x"
  shows "\<exists>n. reverseENSLookup L sv address = Inr n"
  using assms
  by (cases "reverse_name e address")
     (auto simp: reverseENSLookup_def split: sum.splits)

lemma validateLoop_returns:
  assumes "ens sv = Some e" and "\<forall>a x. reverse_name e a \<noteq> Throws x"
    and "\<forall>element \<in> set cands. isValidEthereumAddress L (content element)
           \<longrightarrow> (\<exists>c. toChecksumAddress L (content element) = Inr c)"
  shows "\<exists>out. validateLoop L sv settings textDocument cands problems ds = Inr out"
  using assms(3)
proof (induction cands arbitrary: problems ds)
  case Nil
  show ?case by simp
next
  case (Cons element rest)
  from Cons.prems have rest: "\<forall>element \<in> set rest. isValidEthereumAddress L (content element)
           \<longrightarrow> (\<exists>c. toChecksumAddress L (content element) = Inr c)" by simp
  show ?case
  proof (cases "real problems < maxNumberOfProblems settings")
    case False
    then show ?thesis
      unfolding validateLoop_Cons_skipped[OF False] by (rule_tac Cons.IH[OF rest])
  next
    case True
    show ?thesis
    proof (cases "isValidEthereumAddress L (content element)")
      case False
      then show ?thesis
        unfolding validateLoop_Cons_examined[OF True] using Cons.IH[OF rest] by simp
    next
      case valid: True
      with Cons.prems obtain c where c: "toChecksumAddress L (content element) = Inr c" by auto
      from reverseENSLookup_returns[OF assms(1,2)] obtain n
        where n: "reverseENSLookup L sv (content element) = Inr n" by blast
      show ?thesis
        unfolding validateLoop_Cons_examined[OF True] using valid c n Cons.IH[OF rest] by simp
    qed
  qed
qed

lemma validateTextDocument_returns:
  assumes "ens (setupClients L settings sv) = Some e"
    and "\<forall>a x. reverse_name e a \<noteq> Throws x"
    and "\<forall>element \<in> set (findPossibleEthereumAddresses textDocument).
           isValidEthereumAddress L (content element)
           \<longrightarrow> (\<exists>c. toChecksumAddress L (content element) = Inr c)"
  shows "\<exists>sv'. validateTextDocument L settings sv textDocument = Inr sv'"
proof -
  from validateLoop_returns[OF assms, of settings textDocument 0 "[]"] obtain out where
    "validateLoop L (setupClients L settings sv) settings textDocument
       (findPossibleEthereumAddresses textDocument) 0 [] = Inr out" by blast
  then show ?thesis by (simp add: validateTextDocument_def Let_def)
qed

end
